theory Spec2Isabelle
  imports Complex_Main "HOL-Library.AList" "HOL-Library.List_Lexorder" "HOL-Library.Char_ord"
begin

section \<open>Python values used by the controller\<close>



definition startswith :: "string \<Rightarrow> string \<Rightarrow> bool" where
  "startswith s p \<longleftrightarrow> take (length p) s = p"

definition endswith :: "string \<Rightarrow> string \<Rightarrow> bool" where
  "endswith s suf \<longleftrightarrow> length suf \<le> length s \<and> drop (length s - length suf) s = suf"

text \<open>The slice \<^verbatim>\<open>s[:-n]\<close>; for \<open>n = 0\<close> Python reads it as \<^verbatim>\<open>s[:0]\<close>.\<close>

definition slice_before_last :: "string \<Rightarrow> nat \<Rightarrow> string" where
  "slice_before_last s n = (if n = 0 then [] else take (length s - n) s)"

text \<open>
  \<^verbatim>\<open>s.replace(old, new)\<close> for a non-empty \<open>old\<close>: leftmost occurrences, not
  overlapping, each replaced by \<open>new\<close>.
\<close>

function replace_scan :: "string \<Rightarrow> string \<Rightarrow> string \<Rightarrow> string" where
  "replace_scan old new [] = []"
| "replace_scan old new (c # cs) =
     (if old \<noteq> [] \<and> take (length old) (c # cs) = old
      then new @ replace_scan old new (drop (length old) (c # cs))
      else c # replace_scan old new cs)"
  by pat_completeness auto
termination
  by (relation "measure (\<lambda>(old, new, s). length s)") auto

definition py_replace :: "string \<Rightarrow> string \<Rightarrow> string \<Rightarrow> string" where
  "py_replace s old new =
     (if old = [] then new @ concat (map (\<lambda>c. c # new) s) else replace_scan old new s)"

text \<open>
  A decoded JSON document, which is also the shape of every dynamically typed
  value the program inspects with \<^verbatim>\<open>isinstance\<close>. A JSON object keeps its
  keys in insertion order, as a Python dict does. \<open>JNull\<close> is \<^verbatim>\<open>None\<close>.
\<close>

datatype json =
    JNull
  | JBool bool
  | JNum rat
  | JStr string
  | JArr "json list"
  | JObj "(string \<times> json) list"

fun truthy :: "json \<Rightarrow> bool" where
  "truthy JNull = False"
| "truthy (JBool b) = b"
| "truthy (JNum x) = (x \<noteq> 0)"
| "truthy (JStr s) = (s \<noteq> [])"
| "truthy (JArr xs) = (xs \<noteq> [])"
| "truthy (JObj kv) = (kv \<noteq> [])"

text \<open>\<^verbatim>\<open>d.get(k)\<close> and \<^verbatim>\<open>d.get(k, default)\<close>.\<close>

definition dict_get :: "(string \<times> json) list \<Rightarrow> string \<Rightarrow> json" where
  "dict_get d k = (case map_of d k of None \<Rightarrow> JNull | Some v \<Rightarrow> v)"

definition dict_get_or :: "(string \<times> json) list \<Rightarrow> string \<Rightarrow> json \<Rightarrow> json" where
  "dict_get_or d k dflt = (case map_of d k of None \<Rightarrow> dflt | Some v \<Rightarrow> v)"

text \<open>\<^verbatim>\<open>a or b\<close>.\<close>

definition py_or :: "json \<Rightarrow> json \<Rightarrow> json" where
  "py_or a b = (if truthy a then a else b)"

text \<open>\<^verbatim>\<open>m.get(k, 0.0)\<close> on a table of clock readings.\<close>

definition get_or :: "(string \<rightharpoonup> rat) \<Rightarrow> string \<Rightarrow> rat \<Rightarrow> rat" where
  "get_or m k dflt = (case m k of None \<Rightarrow> dflt | Some v \<Rightarrow> v)"

section \<open>Configuration (config/user\_config.py, defaults of app/core.py)\<close>

definition EXPECTED_WS_MAIN :: string where "EXPECTED_WS_MAIN = ''show_main''"
definition EXPECTED_WS_BACKUP :: string where "EXPECTED_WS_BACKUP = ''show_backup''"
definition SUFFIX_MAIN :: string where "SUFFIX_MAIN = ''_main''"
definition SUFFIX_BACKUP :: string where "SUFFIX_BACKUP = ''_backup''"
definition SUFFIX_AUX1 :: string where "SUFFIX_AUX1 = ''_aux1''"

section \<open>Role decision (app/discover.py)\<close>

datatype pairing_error = NoRespondersError | ConflictError | KeyError

datatype kind = KMain | KBackup | KAux | KPlain

record candidate =
  c_ip :: string
  c_ws_name :: string
  c_ws_id :: string
  c_kind :: kind
  c_base :: string

record endpoint =
  ip :: string
  role :: string
  workspace_name :: "string option"
  workspace_id :: "string option"
  last_seen_mono :: rat

definition classify :: "string \<Rightarrow> kind \<times> string" where
  "classify ws_name =
     (if ws_name = EXPECTED_WS_MAIN then (KMain, ''__legacy_expected__'')
      else if ws_name = EXPECTED_WS_BACKUP then (KBackup, ''__legacy_expected__'')
      else if endswith ws_name SUFFIX_MAIN
        then (KMain, slice_before_last ws_name (length SUFFIX_MAIN))
      else if endswith ws_name SUFFIX_BACKUP
        then (KBackup, slice_before_last ws_name (length SUFFIX_BACKUP))
      else if endswith ws_name SUFFIX_AUX1
        then (KAux, slice_before_last ws_name (length SUFFIX_AUX1))
      else (KPlain, ws_name))"

text \<open>\<^verbatim>\<open>isinstance(x, str) and x\<close>.\<close>

definition nonempty_str :: "json \<Rightarrow> bool" where
  "nonempty_str x = (case x of JStr s \<Rightarrow> s \<noteq> [] | _ \<Rightarrow> False)"

text \<open>A responder is an address with its workspace map, name to identifier.\<close>

type_synonym responder = "string \<times> (string \<times> json) list"

text \<open>
  The candidate of one workspace: none unless the identifier is a non-empty
  string.
\<close>

definition candidate_of :: "string \<Rightarrow> string \<times> json \<Rightarrow> candidate list" where
  "candidate_of a ws =
     (case classify (fst ws) of (k, b) \<Rightarrow>
        (case snd ws of
           JStr i \<Rightarrow>
             if i \<noteq> []
             then [\<lparr>c_ip = a, c_ws_name = fst ws, c_ws_id = i, c_kind = k, c_base = b\<rparr>]
             else []
         | _ \<Rightarrow> []))"

definition candidates :: "responder list \<Rightarrow> candidate list" where
  "candidates responders =
     concat (map (\<lambda>r. concat (map (candidate_of (fst r)) (snd r))) responders)"

definition to_endpoint :: "string \<Rightarrow> candidate \<Rightarrow> endpoint" where
  "to_endpoint r c =
     \<lparr>ip = c_ip c, role = r, workspace_name = Some (c_ws_name c),
      workspace_id = Some (c_ws_id c), last_seen_mono = 0\<rparr>"

text \<open>
  \<open>by_base\<close>: base to (kind to candidate), bases in insertion order. The loop
  raises at the first candidate whose kind its base already holds.
\<close>

type_synonym by_base = "(string \<times> (kind \<rightharpoonup> candidate)) list"

definition base_entry :: "by_base \<Rightarrow> string \<Rightarrow> (kind \<rightharpoonup> candidate)" where
  "base_entry bb b = (case map_of bb b of None \<Rightarrow> Map.empty | Some mm \<Rightarrow> mm)"

fun group_by_base :: "by_base \<Rightarrow> candidate list \<Rightarrow> pairing_error + by_base" where
  "group_by_base bb [] = Inr bb"
| "group_by_base bb (c # cs) =
     (if c_kind c \<noteq> KMain \<and> c_kind c \<noteq> KBackup then group_by_base bb cs
      else if base_entry bb (c_base c) (c_kind c) \<noteq> None then Inl ConflictError
      else group_by_base
             (AList.update (c_base c) ((base_entry bb (c_base c))(c_kind c \<mapsto> c)) bb) cs)"

definition complete_bases :: "by_base \<Rightarrow> string list" where
  "complete_bases bb = map fst (filter (\<lambda>(b, mm). mm KMain \<noteq> None \<and> mm KBackup \<noteq> None) bb)"

definition main_bases :: "by_base \<Rightarrow> string list" where
  "main_bases bb = map fst (filter (\<lambda>(b, mm). mm KMain \<noteq> None) bb)"

text \<open>The base chosen, if any; two tagged primaries without a pair are a conflict.\<close>

definition select_base :: "by_base \<Rightarrow> pairing_error + string option" where
  "select_base bb =
     (case sort (complete_bases bb) of
        b # _ \<Rightarrow> Inr (Some b)
      | [] \<Rightarrow>
          (if length (main_bases bb) > 1 then Inl ConflictError
           else (case main_bases bb of [b] \<Rightarrow> Inr (Some b) | _ \<Rightarrow> Inr None)))"

definition assign_main_backup ::
  "candidate list \<Rightarrow> by_base \<Rightarrow> string option \<Rightarrow> pairing_error + (string \<rightharpoonup> endpoint)" where
  "assign_main_backup cands bb selected_base =
     (case selected_base of
        Some sb \<Rightarrow>
          (case map_of bb sb of
             None \<Rightarrow> Inl KeyError
           | Some mm \<Rightarrow>
               (case mm KMain of
                  None \<Rightarrow> Inl ConflictError
                | Some m \<Rightarrow>
                    (case mm KBackup of
                       Some b \<Rightarrow>
                         Inr [''main'' \<mapsto> to_endpoint ''main'' m,
                              ''backup'' \<mapsto> to_endpoint ''backup'' b]
                     | None \<Rightarrow> Inr [''main'' \<mapsto> to_endpoint ''main'' m])))
      | None \<Rightarrow>
          (case filter (\<lambda>c. c_kind c = KPlain) cands of
             [] \<Rightarrow> Inl NoRespondersError
           | [p] \<Rightarrow> Inr [''main'' \<mapsto> to_endpoint ''main'' p]
           | _ \<Rightarrow> Inl ConflictError))"

definition decide_roles :: "responder list \<Rightarrow> pairing_error + (string \<rightharpoonup> endpoint)" where
  "decide_roles responders =
     (if responders = [] then Inl NoRespondersError
      else
        let cands = candidates responders in
        if cands = [] then Inl NoRespondersError
        else
          let aux_cands = filter (\<lambda>c. c_kind c = KAux) cands in
          if length aux_cands > 1 then Inl ConflictError
          else
            let aux_ep = (case aux_cands of [c] \<Rightarrow> Some (to_endpoint ''aux'' c) | _ \<Rightarrow> None) in
            (case group_by_base [] cands of
               Inl e \<Rightarrow> Inl e
             | Inr bb \<Rightarrow>
                 (case select_base bb of
                    Inl e \<Rightarrow> Inl e
                  | Inr selected_base \<Rightarrow>
                      (case assign_main_backup cands bb selected_base of
                         Inl e \<Rightarrow> Inl e
                       | Inr assigned \<Rightarrow>
                           (case aux_ep of
                              Some a \<Rightarrow> Inr (assigned(''aux'' \<mapsto> a))
                            | None \<Rightarrow> Inr assigned)))))"

text \<open>
  A responder with the workspaces dropped whose identifier is not a non-empty
  string; used to state what the decision ignores.
\<close>

definition keep_valid :: "responder \<Rightarrow> responder" where
  "keep_valid r = (fst r, filter (\<lambda>ws. nonempty_str (snd ws)) (snd r))"

definition tagged :: "candidate \<Rightarrow> bool" where
  "tagged c \<longleftrightarrow> c_kind c = KMain \<or> c_kind c = KBackup"

definition slot :: "candidate \<Rightarrow> string \<times> kind" where
  "slot c = (c_base c, c_kind c)"

definition group_ok :: "by_base \<Rightarrow> candidate list \<Rightarrow> bool" where
  "group_ok bb cs \<longleftrightarrow>
     distinct (map slot (filter tagged cs))
     \<and> list_all (\<lambda>c. base_entry bb (c_base c) (c_kind c) = None) (filter tagged cs)"

definition put_candidate :: "by_base \<Rightarrow> candidate \<Rightarrow> by_base" where
  "put_candidate bb c = AList.update (c_base c) ((base_entry bb (c_base c))(c_kind c \<mapsto> c)) bb"

definition with_aux :: "candidate list \<Rightarrow> (string \<rightharpoonup> endpoint) \<Rightarrow> (string \<rightharpoonup> endpoint)" where
  "with_aux cs a = (case filter (\<lambda>c. c_kind c = KAux) cs of
                      [x] \<Rightarrow> a(''aux'' \<mapsto> to_endpoint ''aux'' x) | _ \<Rightarrow> a)"

section \<open>Workspace listing (app/core.py, parse\_workspaces)\<close>

text \<open>
  The loop over \<^verbatim>\<open>data\<close>: \<^verbatim>\<open>out[base] = uid\<close> keeps the position of a key
  already present and appends a new one.
\<close>

fun parse_loop :: "(string \<times> string) list \<Rightarrow> json list \<Rightarrow> (string \<times> string) list" where
  "parse_loop out [] = out"
| "parse_loop out (it # its) =
     (case it of
        JObj d \<Rightarrow>
          (case (py_or (py_or (dict_get d ''displayName'') (dict_get d ''name''))
                       (dict_get d ''fileName''),
                 py_or (py_or (dict_get d ''uniqueID'') (dict_get d ''id''))
                       (dict_get d ''workspace_id'')) of
             (JStr name, JStr uid) \<Rightarrow>
               parse_loop
                 (AList.update (py_replace (py_replace name ''.qlab5'' []) ''.qlab4'' []) uid out)
                 its
           | _ \<Rightarrow> parse_loop out its)
      | _ \<Rightarrow> parse_loop out its)"

definition parse_workspaces :: "json \<Rightarrow> (string \<times> string) list" where
  "parse_workspaces reply_json =
     (case reply_json of
        JObj r \<Rightarrow>
          (if dict_get r ''status'' \<noteq> JStr ''ok'' then []
           else (case dict_get r ''data'' of JArr data \<Rightarrow> parse_loop [] data | _ \<Rightarrow> []))
      | _ \<Rightarrow> [])"

text \<open>
  Vocabulary for the listing's properties. The value preferred among
  synonymous fields is the first truthy one, the last when none is. An entry
  is listed under its name without the substrings \<^verbatim>\<open>.qlab5\<close> and
  \<^verbatim>\<open>.qlab4\<close> when name and identifier are both strings.
\<close>

definition preferred :: "(string \<times> json) list \<Rightarrow> string \<Rightarrow> string \<Rightarrow> string \<Rightarrow> json" where
  "preferred d k1 k2 k3 =
     (if truthy (dict_get d k1) then dict_get d k1
      else if truthy (dict_get d k2) then dict_get d k2
      else dict_get d k3)"

definition listed :: "json \<Rightarrow> (string \<times> string) option" where
  "listed it =
     (case it of
        JObj d \<Rightarrow>
          (case preferred d ''displayName'' ''name'' ''fileName'' of
             JStr name \<Rightarrow>
               (case preferred d ''uniqueID'' ''id'' ''workspace_id'' of
                  JStr uid \<Rightarrow> Some (py_replace (py_replace name ''.qlab5'' []) ''.qlab4'' [], uid)
                | _ \<Rightarrow> None)
           | _ \<Rightarrow> None)
      | _ \<Rightarrow> None)"

text \<open>The key the listing would use if the format suffix were cut from the end only.\<close>

definition strip_format_suffix :: "string \<Rightarrow> string" where
  "strip_format_suffix name =
     (if endswith name ''.qlab5'' then slice_before_last name 6
      else if endswith name ''.qlab4'' then slice_before_last name 6
      else name)"

section \<open>LED renderer (app/daemon.py, LEDWorker)\<close>

type_synonym rgb = "int \<times> int \<times> int"


definition TOGGLE_MIN :: rat where
  "TOGGLE_MIN = 3602879701896397 / 72057594037927936"

definition BLINK_TOGGLE_SLOW :: rat where "BLINK_TOGGLE_SLOW = 1"
definition BLINK_TOGGLE_FAST :: rat where "BLINK_TOGGLE_FAST = 1 / 4"



text \<open>The state the worker keeps for one role's pixel.\<close>

record led_cell =
  steady :: rgb
  blink :: bool
  toggle :: rat
  flash_until :: rat
  fade_start :: rat
  fade_from :: rgb
  last_rendered :: rgb
  flash_active :: bool


definition set_state :: "rgb \<Rightarrow> bool \<Rightarrow> rat \<Rightarrow> led_cell \<Rightarrow> led_cell" where
  "set_state steady_rgb bl toggle_sec c =
     c\<lparr>steady := steady_rgb, blink := bl, toggle := max TOGGLE_MIN toggle_sec\<rparr>"




section \<open>Shared state of the daemon (module globals of app/core.py and app/daemon.py)\<close>

definition QLAB_PORT :: int where "QLAB_PORT = 53000"
definition PI_REPLY_PORT :: int where "PI_REPLY_PORT = 53001"
definition OSC_PASSCODE :: string where "OSC_PASSCODE = ''7777''"
definition P_UDP_REPLY_PORT :: string where "P_UDP_REPLY_PORT = ''/udpReplyPort''"
definition P_ALWAYS_REPLY :: string where "P_ALWAYS_REPLY = ''/alwaysReply''"
definition P_FORGET_ME_NOT :: string where "P_FORGET_ME_NOT = ''/forgetMeNot''"
definition HEARTBEAT_INTERVAL :: rat where "HEARTBEAT_INTERVAL = 2"
definition OFFLINE_AFTER :: rat where "OFFLINE_AFTER = 8"
definition CONNECT_REFRESH_EVERY :: rat where "CONNECT_REFRESH_EVERY = 6"
definition APPFLAGS_REFRESH_EVERY :: rat where "APPFLAGS_REFRESH_EVERY = 10"
definition ROLES :: "string list" where "ROLES = [''main'', ''backup'', ''aux'']"

text \<open>An OSC argument, sent or received.\<close>

datatype osc_arg = AInt int | AFloat rat | AStr string | ABytes string | AList "osc_arg list"

text \<open>An item of the send worker's queue.\<close>

record osc_msg =
  m_ip :: string
  m_path :: string
  m_arg :: osc_arg


text \<open>
  The world a call runs in. \<open>clock\<close> gives the successive readings of the
  monotonic clock and \<open>ticks\<close> counts the readings taken; \<open>replies\<close> gives
  the outcome of the successive waits on a reply (the payload the listener
  deposited under the awaited key, \<open>None\<close> for a timeout) and \<open>waits\<close> counts
  them. \<open>outq\<close> is every message handed to the send worker, in order (the
  worker drops a message when its queue of 1000 is full). \<open>state_file\<close> is the
  persisted record as the state manager loads it. The other fields are the
  tables of the two modules; \<open>acks\<close> records the calls of the registered
  acknowledgement callback.
\<close>

record world =
  clock :: "nat \<Rightarrow> rat"
  ticks :: nat
  replies :: "nat \<Rightarrow> json option"
  waits :: nat
  outq :: "osc_msg list"
  w_events :: "string \<rightharpoonup> bool"
  w_payloads :: "string \<rightharpoonup> json"
  discovery :: "string \<rightharpoonup> json"
  role_by_ip :: "string \<rightharpoonup> string"
  last_seen_by_ip :: "string \<rightharpoonup> rat"
  appflags_last :: "string \<rightharpoonup> rat"
  connect_last :: "string \<rightharpoonup> rat"
  state_file :: "(string \<times> json) list"
  last_thump_sent :: "string \<rightharpoonup> rat"
  last_reconcile :: "string \<rightharpoonup> rat"
  offline_backoff :: "string \<rightharpoonup> rat"
  offline_next_try :: "string \<rightharpoonup> rat"
  ack_callback :: bool
  acks :: "(string \<times> string) list"

definition mono :: "world \<Rightarrow> rat \<times> world" where
  "mono w = (clock w (ticks w), w\<lparr>ticks := Suc (ticks w)\<rparr>)"

definition mark_seen :: "string \<Rightarrow> world \<Rightarrow> world" where
  "mark_seen a w =
     (case mono w of (t, w1) \<Rightarrow> w1\<lparr>last_seen_by_ip := (last_seen_by_ip w1)(a \<mapsto> t)\<rparr>)"

subsection \<open>Sending\<close>

definition sendw_send :: "string \<Rightarrow> string \<Rightarrow> osc_arg \<Rightarrow> world \<Rightarrow> world" where
  "sendw_send a path arg w = w\<lparr>outq := outq w @ [\<lparr>m_ip = a, m_path = path, m_arg = arg\<rparr>]\<rparr>"

text \<open>The argument passed on for \<^verbatim>\<open>*args\<close>: the only one, the list of them, or \<^verbatim>\<open>[]\<close>.\<close>

definition pack_args :: "osc_arg list \<Rightarrow> osc_arg" where
  "pack_args args = (case args of [] \<Rightarrow> AList [] | [x] \<Rightarrow> x | _ \<Rightarrow> AList args)"

definition send_app :: "string \<Rightarrow> string \<Rightarrow> osc_arg list \<Rightarrow> world \<Rightarrow> world" where
  "send_app a path args w = sendw_send a path (pack_args args) w"

definition ws_path :: "string \<Rightarrow> string \<Rightarrow> string" where
  "ws_path wsid suffix = py_replace (''/workspace/'' @ wsid @ ''/'' @ suffix) ''//'' ''/''"

definition send_ws :: "string \<Rightarrow> string \<Rightarrow> string \<Rightarrow> osc_arg list \<Rightarrow> world \<Rightarrow> world" where
  "send_ws a wsid suffix args w = sendw_send a (ws_path wsid suffix) (pack_args args) w"

subsection \<open>Reply waiters\<close>

definition waiters_arm :: "string \<Rightarrow> world \<Rightarrow> world" where
  "waiters_arm key w =
     w\<lparr>w_events := (w_events w)(key \<mapsto> False), w_payloads := (w_payloads w)(key := None)\<rparr>"

definition waiters_set :: "string \<Rightarrow> json \<Rightarrow> world \<Rightarrow> world" where
  "waiters_set key payload w =
     w\<lparr>w_payloads := (w_payloads w)(key \<mapsto> payload),
       w_events := (case w_events w key of
                      None \<Rightarrow> w_events w
                    | Some _ \<Rightarrow> (w_events w)(key \<mapsto> True))\<rparr>"

definition waiters_pop :: "string \<Rightarrow> world \<Rightarrow> json option \<times> world" where
  "waiters_pop key w =
     (w_payloads w key,
      w\<lparr>w_events := (w_events w)(key := None), w_payloads := (w_payloads w)(key := None)\<rparr>)"

definition waiters_cleanup :: "string \<Rightarrow> world \<Rightarrow> world" where
  "waiters_cleanup key w =
     w\<lparr>w_events := (w_events w)(key := None), w_payloads := (w_payloads w)(key := None)\<rparr>"

text \<open>
  \<^verbatim>\<open>ev.wait(timeout)\<close> on the event armed under \<open>key\<close>: the next outcome of
  \<open>replies\<close>; a payload is what the listener has set under the key meanwhile.
\<close>

definition wait_reply :: "string \<Rightarrow> world \<Rightarrow> bool \<times> world" where
  "wait_reply key w =
     (case replies w (waits w) of
        None \<Rightarrow> (False, w\<lparr>waits := Suc (waits w)\<rparr>)
      | Some payload \<Rightarrow> (True, waiters_set key payload (w\<lparr>waits := Suc (waits w)\<rparr>)))"

subsection \<open>Protocol helpers (app/core.py)\<close>

definition ensure_app_flags :: "string \<Rightarrow> bool \<Rightarrow> world \<Rightarrow> world" where
  "ensure_app_flags a force w =
     (case mono w of (now, w1) \<Rightarrow>
        if \<not> force \<and> now - get_or (appflags_last w1) a 0 < APPFLAGS_REFRESH_EVERY then w1
        else
          send_app a P_FORGET_ME_NOT [AInt 1]
            (send_app a P_ALWAYS_REPLY [AInt 1]
              (send_app a P_UDP_REPLY_PORT [AInt PI_REPLY_PORT]
                (w1\<lparr>appflags_last := (appflags_last w1)(a \<mapsto> now)\<rparr>))))"


text \<open>\<^verbatim>\<open>not ep.workspace_id\<close>.\<close>

definition no_workspace_id :: "endpoint \<Rightarrow> bool" where
  "no_workspace_id ep \<longleftrightarrow> workspace_id ep = None \<or> workspace_id ep = Some []"

definition wsid_of :: "endpoint \<Rightarrow> string" where
  "wsid_of ep = (case workspace_id ep of None \<Rightarrow> [] | Some i \<Rightarrow> i)"

definition connect_endpoint :: "endpoint \<Rightarrow> world \<Rightarrow> bool \<times> world" where
  "connect_endpoint ep w =
     (if no_workspace_id ep then (False, w)
      else
        let key = ''connect:'' @ ip ep @ '':'' @ wsid_of ep;
            w1 = waiters_arm key w;
            w2 = (if OSC_PASSCODE \<noteq> [] then send_ws (ip ep) (wsid_of ep) ''connect'' [AStr OSC_PASSCODE] w1
                  else send_ws (ip ep) (wsid_of ep) ''connect'' [] w1)
        in case wait_reply key w2 of
             (False, w3) \<Rightarrow> (False, waiters_cleanup key w3)
           | (True, w3) \<Rightarrow>
               (case waiters_pop key w3 of
                  (Some (JObj d), w4) \<Rightarrow>
                    if dict_get d ''status'' = JStr ''ok'' then (True, mark_seen (ip ep) w4)
                    else (False, w4)
                | (_, w4) \<Rightarrow> (False, w4)))"

definition ensure_connected :: "endpoint \<Rightarrow> bool \<Rightarrow> world \<Rightarrow> world" where
  "ensure_connected ep force w =
     (if no_workspace_id ep then w
      else case mono w of (now, w1) \<Rightarrow>
        if \<not> force \<and> now - get_or (connect_last w1) (ip ep) 0 < CONNECT_REFRESH_EVERY then w1
        else
          (case connect_endpoint ep (w1\<lparr>connect_last := (connect_last w1)(ip ep \<mapsto> now)\<rparr>) of
             (True, w2) \<Rightarrow> w2
           | (False, w2) \<Rightarrow> snd (connect_endpoint ep (ensure_app_flags (ip ep) True w2))))"

text \<open>The address to role map rebuilt from a persisted record.\<close>

definition role_map_step :: "(string \<times> json) list \<Rightarrow> (string \<rightharpoonup> string) \<Rightarrow> string \<Rightarrow> (string \<rightharpoonup> string)" where
  "role_map_step eps mapping r =
     (case dict_get eps r of
        JObj e \<Rightarrow>
          (case dict_get e ''ip'' of
             JStr a \<Rightarrow> if a \<noteq> [] then mapping(a \<mapsto> r) else mapping
           | _ \<Rightarrow> mapping)
      | _ \<Rightarrow> mapping)"

definition refresh_role_map_from_state :: "(string \<times> json) list \<Rightarrow> world \<Rightarrow> world" where
  "refresh_role_map_from_state st w =
     w\<lparr>role_by_ip :=
         (case dict_get_or st ''endpoints'' (JObj []) of
            JObj eps \<Rightarrow> foldl (role_map_step eps) Map.empty ROLES
          | _ \<Rightarrow> Map.empty)\<rparr>"

subsection \<open>Inbound dispatcher (app/core.py, \_osc\_handler)\<close>

definition is_str :: "json \<Rightarrow> bool" where
  "is_str x = (case x of JStr _ \<Rightarrow> True | _ \<Rightarrow> False)"

text \<open>The string of a value known to be one.\<close>

definition str_of :: "json \<Rightarrow> string" where
  "str_of x = (case x of JStr s \<Rightarrow> s | _ \<Rightarrow> [])"

text \<open>\<^verbatim>\<open>isinstance(x, str) and x.endswith(suf)\<close>.\<close>

definition str_endswith :: "json \<Rightarrow> string \<Rightarrow> bool" where
  "str_endswith x suf = (case x of JStr s \<Rightarrow> endswith s suf | _ \<Rightarrow> False)"

definition ACK_SUFFIXES :: "string list" where
  "ACK_SUFFIXES = [''/go'', ''/panic'', ''/stop'', ''/pause'', ''/resume'', ''/select/next'',
                   ''/select/previous'']"

definition discovery_add :: "string \<Rightarrow> json \<Rightarrow> world \<Rightarrow> world" where
  "discovery_add a payload w = w\<lparr>discovery := (discovery w)(a \<mapsto> payload)\<rparr>"

text \<open>\<^verbatim>\<open>if r and _on_ack: _on_ack(src_ip, r)\<close> after the address was marked seen.\<close>

definition acknowledge :: "string \<Rightarrow> world \<Rightarrow> world" where
  "acknowledge a w =
     (let w1 = mark_seen a w
      in case role_by_ip w1 a of
           Some r \<Rightarrow> if r \<noteq> [] \<and> ack_callback w1 then w1\<lparr>acks := acks w1 @ [(a, r)]\<rparr> else w1
         | None \<Rightarrow> w1)"

text \<open>The routing of a reply that parsed as a JSON object \<open>j\<close>.\<close>

definition dispatch_reply :: "string \<Rightarrow> string \<Rightarrow> (string \<times> json) list \<Rightarrow> world \<Rightarrow> world" where
  "dispatch_reply src_ip address j w =
     (let invoked = dict_get_or j ''address'' (JStr []);
          wsid = dict_get j ''workspace_id'';
          status = dict_get j ''status''
      in
        if startswith address ''/reply/workspaces'' \<or> invoked = JStr ''/workspaces''
        then discovery_add src_ip (JObj j) (waiters_set (''workspaces:'' @ src_ip) (JObj j) w)
        else if str_endswith invoked ''/connect'' \<and> nonempty_str wsid
        then
          (let w1 = waiters_set (''connect:'' @ src_ip @ '':'' @ str_of wsid) (JObj j) w
           in if status = JStr ''ok'' then mark_seen src_ip w1 else w1)
        else if str_endswith invoked ''/thump'' \<and> nonempty_str wsid
        then (if status = JStr ''ok'' then mark_seen src_ip w else w)
        else if status = JStr ''ok'' \<and> nonempty_str wsid \<and> is_str invoked
        then (if list_ex (\<lambda>suffix. str_endswith invoked suffix) ACK_SUFFIXES
              then acknowledge src_ip w else w)
        else w)"

text \<open>
  The handler of every inbound datagram. The JSON decoder and the UTF-8
  decoder (errors ignored) are the library's and are taken as parameters.
\<close>

definition osc_handler ::
  "(string \<Rightarrow> json option) \<Rightarrow> (string \<Rightarrow> string) \<Rightarrow> (string \<times> int) option \<Rightarrow> string
     \<Rightarrow> osc_arg list \<Rightarrow> world \<Rightarrow> world" where
  "osc_handler json_loads decode_utf8 client_address address args w =
     (let src_ip = (case client_address of Some (h, p) \<Rightarrow> h | None \<Rightarrow> ''0.0.0.0'');
          payload = (case args of
                       ABytes b # _ \<Rightarrow> Some (decode_utf8 b)
                     | AStr s # _ \<Rightarrow> Some s
                     | _ \<Rightarrow> None)
      in case payload of
           None \<Rightarrow> w
         | Some s \<Rightarrow>
             if length s > 200000 then w
             else (case json_loads s of
                     Some (JObj j) \<Rightarrow> dispatch_reply src_ip address j w
                   | _ \<Rightarrow> w))"

subsection \<open>Heartbeat (app/daemon.py, thump\_fire)\<close>

definition thump_fire :: "endpoint \<Rightarrow> world \<Rightarrow> world" where
  "thump_fire ep w =
     (if no_workspace_id ep then w
      else
        case mono (ensure_connected ep False (ensure_app_flags (ip ep) False w)) of (now, w1) \<Rightarrow>
          let k = ip ep @ '':'' @ wsid_of ep
          in if now - get_or (last_thump_sent w1) k 0 < HEARTBEAT_INTERVAL then w1
             else send_ws (ip ep) (wsid_of ep) ''thump'' []
                    (w1\<lparr>last_thump_sent := (last_thump_sent w1)(k \<mapsto> now)\<rparr>))"

subsection \<open>Offline backoff and reconcile (app/daemon.py)\<close>








text \<open>The world when the modules have just been loaded.\<close>

definition world_init :: "(nat \<Rightarrow> rat) \<Rightarrow> (nat \<Rightarrow> json option) \<Rightarrow> world" where
  "world_init clk net =
     \<lparr>clock = clk, ticks = 0, replies = net, waits = 0, outq = [],
      w_events = Map.empty, w_payloads = Map.empty, discovery = Map.empty,
      role_by_ip = Map.empty, last_seen_by_ip = Map.empty, appflags_last = Map.empty,
      connect_last = Map.empty, state_file = [], last_thump_sent = Map.empty,
      last_reconcile = Map.empty, offline_backoff = Map.empty, offline_next_try = Map.empty,
      ack_callback = False, acks = []\<rparr>"

text \<open>Vocabulary for frame properties of the helpers.\<close>

definition same_tables :: "world \<Rightarrow> world \<Rightarrow> bool" where
  "same_tables w w' \<longleftrightarrow>
     clock w' = clock w \<and> replies w' = replies w \<and> state_file w' = state_file w
     \<and> last_thump_sent w' = last_thump_sent w \<and> last_reconcile w' = last_reconcile w
     \<and> offline_backoff w' = offline_backoff w \<and> offline_next_try w' = offline_next_try w"

definition appended :: "(osc_msg \<Rightarrow> bool) \<Rightarrow> world \<Rightarrow> world \<Rightarrow> bool" where
  "appended P w w' \<longleftrightarrow> (\<exists>ms. outq w' = outq w @ ms \<and> list_all P ms)"

definition has_arg :: "osc_msg \<Rightarrow> bool" where
  "has_arg m \<longleftrightarrow> m_arg m \<noteq> AList []"

text \<open>
  Vocabulary for the heartbeat's property: the throttle key and the message
  of an endpoint, and the time at which a call of \<open>thump_fire\<close> hands its
  \<^verbatim>\<open>/thump\<close> to the send worker, if it does (the message is then the last one
  the call has appended, and the time its last clock reading).
\<close>

definition thump_key :: "endpoint \<Rightarrow> string" where
  "thump_key ep = ip ep @ '':'' @ wsid_of ep"

definition thump_msg :: "endpoint \<Rightarrow> osc_msg" where
  "thump_msg ep = \<lparr>m_ip = ip ep, m_path = ws_path (wsid_of ep) ''thump'', m_arg = AList []\<rparr>"

definition thump_sent_at :: "endpoint \<Rightarrow> world \<Rightarrow> rat option" where
  "thump_sent_at ep w =
     (let w' = thump_fire ep w
      in if length (outq w) < length (outq w') \<and> last (outq w') = thump_msg ep
         then Some (clock w (ticks w' - 1)) else None)"


definition found_id :: "endpoint \<Rightarrow> json option \<Rightarrow> string option" where
  "found_id ep reply =
     (case reply of
        Some (JObj d) \<Rightarrow>
          if d = [] then None
          else (case workspace_name ep of
                  None \<Rightarrow> None
                | Some desired \<Rightarrow>
                    if desired = [] then None
                    else (case map_of (parse_workspaces (JObj d)) desired of
                            None \<Rightarrow> None
                          | Some i \<Rightarrow> if i = [] then None else Some i))
      | _ \<Rightarrow> None)"









section \<open>Properties of the role decision\<close>

lemma group_by_base_untagged:
  "\<forall>c\<in>set cs. c_kind c \<noteq> KMain \<and> c_kind c \<noteq> KBackup \<Longrightarrow> group_by_base bb cs = Inr bb"
  by (induction cs arbitrary: bb) auto

lemma select_base_Nil: "select_base [] = Inr None"
  by (simp add: select_base_def complete_bases_def main_bases_def)

lemma decide_roles_all_plain:
  assumes "\<forall>c\<in>set (candidates rs). c_kind c = KPlain"
  shows "decide_roles rs =
           (case candidates rs of
              [] \<Rightarrow> Inl NoRespondersError
            | [p] \<Rightarrow> Inr [''main'' \<mapsto> to_endpoint ''main'' p]
            | _ \<Rightarrow> Inl ConflictError)"
proof (cases "candidates rs")
  case Nil
  then show ?thesis by (simp add: decide_roles_def)
next
  case (Cons p ps)
  then have ne: "rs \<noteq> []" by (auto simp: candidates_def)
  have aux: "filter (\<lambda>c. c_kind c = KAux) (candidates rs) = []"
    using assms by (auto simp: filter_empty_conv)
  have pl: "filter (\<lambda>c. c_kind c = KPlain) (candidates rs) = candidates rs"
    using assms by (simp add: filter_id_conv)
  have grp: "group_by_base [] (candidates rs) = Inr []"
    using assms by (intro group_by_base_untagged) auto
  show ?thesis
    using Cons ne aux pl grp
    by (cases ps) (simp_all add: decide_roles_def Let_def select_base_Nil assign_main_backup_def)
qed

lemma classify_ShowUnique: "classify ''ShowUnique'' = (KPlain, ''ShowUnique'')"
  by (simp add: classify_def endswith_def EXPECTED_WS_MAIN_def EXPECTED_WS_BACKUP_def
      SUFFIX_MAIN_def SUFFIX_BACKUP_def SUFFIX_AUX1_def)

text \<open>
  Claim C3. When every candidate of a discovery input is plain, the decision
  depends on their number alone: none raises NoResponders, exactly one makes
  it the primary with neither backup nor auxiliary, more than one raises
  Conflict; so the decision succeeds iff there is exactly one candidate.
\<close>

theorem decide_roles_only_plain:
  assumes "\<forall>c\<in>set (candidates rs). c_kind c = KPlain"
  shows "(candidates rs = [] \<longrightarrow> decide_roles rs = Inl NoRespondersError)
       \<and> (\<forall>p. candidates rs = [p] \<longrightarrow>
             decide_roles rs = Inr [''main'' \<mapsto> to_endpoint ''main'' p])
       \<and> (1 < length (candidates rs) \<longrightarrow> decide_roles rs = Inl ConflictError)
       \<and> ((\<exists>a. decide_roles rs = Inr a) \<longleftrightarrow> length (candidates rs) = 1)"
  using decide_roles_all_plain [OF assms]
  by (auto split: list.splits simp: length_Suc_conv)

theorem decide_roles_only_plain_witness:
  "map c_kind (candidates [(''10.0.0.3'', [(''ShowUnique'', JStr ''U'')])]) = [KPlain]
   \<and> decide_roles [(''10.0.0.3'', [(''ShowUnique'', JStr ''U'')])] =
       Inr [''main'' \<mapsto> \<lparr>ip = ''10.0.0.3'', role = ''main'', workspace_name = Some ''ShowUnique'',
                          workspace_id = Some ''U'', last_seen_mono = 0\<rparr>]"
proof -
  have c: "candidates [(''10.0.0.3'', [(''ShowUnique'', JStr ''U'')])] =
      [\<lparr>c_ip = ''10.0.0.3'', c_ws_name = ''ShowUnique'', c_ws_id = ''U'', c_kind = KPlain,
        c_base = ''ShowUnique''\<rparr>]"
    by (simp add: candidates_def candidate_of_def classify_ShowUnique)
  have h: "\<forall>c\<in>set (candidates [(''10.0.0.3'', [(''ShowUnique'', JStr ''U'')])]). c_kind c = KPlain"
    by (simp add: c)
  show ?thesis
    using decide_roles_only_plain [OF h] by (simp add: c to_endpoint_def)
qed

lemma candidate_of_invalid: "\<not> nonempty_str (snd ws) \<Longrightarrow> candidate_of a ws = []"
  by (auto simp: candidate_of_def nonempty_str_def split: json.splits prod.splits)

lemma concat_candidate_of_filter:
  "concat (map (candidate_of a) (filter (\<lambda>ws. nonempty_str (snd ws)) wss))
   = concat (map (candidate_of a) wss)"
  by (induction wss) (auto simp: candidate_of_invalid)

lemma candidates_keep_valid: "candidates (map keep_valid rs) = candidates rs"
  by (induction rs) (auto simp: candidates_def keep_valid_def concat_candidate_of_filter)

lemma candidates_all_invalid:
  "\<forall>r\<in>set rs. \<forall>ws\<in>set (snd r). \<not> nonempty_str (snd ws) \<Longrightarrow> candidates rs = []"
  by (auto simp: candidates_def candidate_of_invalid)

text \<open>
  Claim C10. The decision ignores every workspace whose identifier is not a
  non-empty string: dropping those workspaces from the input does not change
  the result. A non-empty responder list in which every workspace is of that
  sort raises NoResponders.
\<close>

theorem decide_roles_ignores_invalid_ids:
  "decide_roles (map keep_valid rs) = decide_roles rs
   \<and> (rs \<noteq> [] \<and> (\<forall>r\<in>set rs. \<forall>ws\<in>set (snd r). \<not> nonempty_str (snd ws))
        \<longrightarrow> decide_roles rs = Inl NoRespondersError)"
proof
  show "decide_roles (map keep_valid rs) = decide_roles rs"
    by (simp add: decide_roles_def candidates_keep_valid)
  show "rs \<noteq> [] \<and> (\<forall>r\<in>set rs. \<forall>ws\<in>set (snd r). \<not> nonempty_str (snd ws))
        \<longrightarrow> decide_roles rs = Inl NoRespondersError"
    by (simp add: decide_roles_def candidates_all_invalid)
qed

theorem decide_roles_ignores_invalid_ids_witness:
  "map (\<lambda>r. map (\<lambda>ws. nonempty_str (snd ws)) (snd r))
      [(''10.0.0.1'', [(''show_main'', JStr []), (''x'', JNull)])] = [[False, False]]
   \<and> decide_roles [(''10.0.0.1'', [(''show_main'', JStr []), (''x'', JNull)])]
       = Inl NoRespondersError"
  using decide_roles_ignores_invalid_ids
          [of "[(''10.0.0.1'', [(''show_main'', JStr []), (''x'', JNull)])]"]
  by (simp add: nonempty_str_def)

lemma base_entry_put:
  "base_entry (put_candidate bb c) b k =
     (if (b, k) = slot c then Some c else base_entry bb b k)"
  by (simp add: put_candidate_def base_entry_def update_conv' slot_def)

lemma group_by_base_Cons:
  "group_by_base bb (c # cs) =
     (if \<not> tagged c then group_by_base bb cs
      else if base_entry bb (c_base c) (c_kind c) \<noteq> None then Inl ConflictError
      else group_by_base (put_candidate bb c) cs)"
  by (simp add: tagged_def put_candidate_def)

lemma group_ok_Cons_untagged: "\<not> tagged c \<Longrightarrow> group_ok bb (c # cs) \<longleftrightarrow> group_ok bb cs"
  by (simp add: group_ok_def)

lemma base_entry_put_cand:
  "base_entry (put_candidate bb c) (c_base x) (c_kind x) =
     (if slot x = slot c then Some c else base_entry bb (c_base x) (c_kind x))"
  by (simp add: base_entry_put slot_def)

lemma group_ok_Cons_tagged:
  assumes "tagged c"
  shows "group_ok bb (c # cs) \<longleftrightarrow>
           base_entry bb (c_base c) (c_kind c) = None \<and> group_ok (put_candidate bb c) cs"
proof -
  have "(\<forall>x\<in>set (filter tagged cs). base_entry (put_candidate bb c) (c_base x) (c_kind x) = None)
        \<longleftrightarrow> (\<forall>x\<in>set (filter tagged cs). slot x \<noteq> slot c)
            \<and> (\<forall>x\<in>set (filter tagged cs). base_entry bb (c_base x) (c_kind x) = None)"
    unfolding base_entry_put_cand by (auto split: if_splits)
  moreover have "slot c \<notin> slot ` set (filter tagged cs)
        \<longleftrightarrow> (\<forall>x\<in>set (filter tagged cs). slot x \<noteq> slot c)"
    by (auto simp: image_iff)
  ultimately show ?thesis
    using assms unfolding group_ok_def list_all_iff by auto
qed

lemma group_by_base_conflict:
  "\<not> group_ok bb cs \<Longrightarrow> group_by_base bb cs = Inl ConflictError"
proof (induction cs arbitrary: bb)
  case Nil
  then show ?case by (simp add: group_ok_def)
next
  case (Cons c cs)
  show ?case
  proof (cases "tagged c")
    case False
    with Cons show ?thesis
      unfolding group_by_base_Cons by (simp add: group_ok_Cons_untagged)
  next
    case True
    with Cons show ?thesis
      unfolding group_by_base_Cons by (auto simp: group_ok_Cons_tagged)
  qed
qed

lemma find_slot_Cons:
  "find (\<lambda>x. tagged x \<and> slot x = s) (c # cs) =
     (if tagged c \<and> slot c = s then Some c else find (\<lambda>x. tagged x \<and> slot x = s) cs)"
  by simp

lemma group_by_base_ok:
  assumes "group_ok bb cs" "distinct (map fst bb)"
  shows "\<exists>bb'. group_by_base bb cs = Inr bb' \<and> distinct (map fst bb')
           \<and> (\<forall>b k. base_entry bb' b k =
                 (case find (\<lambda>x. tagged x \<and> slot x = (b, k)) cs of
                    Some x \<Rightarrow> Some x | None \<Rightarrow> base_entry bb b k))
           \<and> fst ` set bb' = fst ` set bb \<union> c_base ` set (filter tagged cs)"
  using assms
proof (induction cs arbitrary: bb)
  case Nil
  then show ?case by simp
next
  case (Cons c cs)
  show ?case
  proof (cases "tagged c")
    case False
    then have "group_ok bb cs" using Cons.prems by (simp add: group_ok_Cons_untagged)
    from Cons.IH [OF this Cons.prems(2)] False show ?thesis
      unfolding group_by_base_Cons find_slot_Cons by simp
  next
    case True
    have free: "base_entry bb (c_base c) (c_kind c) = None"
      and ok: "group_ok (put_candidate bb c) cs"
      using Cons.prems(1) True by (simp_all add: group_ok_Cons_tagged)
    have d: "distinct (map fst (put_candidate bb c))"
      unfolding put_candidate_def using Cons.prems(2) by (rule distinct_update)
    from Cons.IH [OF ok d] obtain bb' where
      r: "group_by_base (put_candidate bb c) cs = Inr bb'" and d': "distinct (map fst bb')"
      and e: "\<And>b k. base_entry bb' b k =
                 (case find (\<lambda>x. tagged x \<and> slot x = (b, k)) cs of
                    Some x \<Rightarrow> Some x | None \<Rightarrow> base_entry (put_candidate bb c) b k)"
      and k: "fst ` set bb' = fst ` set (put_candidate bb c) \<union> c_base ` set (filter tagged cs)"
      by blast
    have nf: "find (\<lambda>x. tagged x \<and> slot x = slot c) cs = None"
    proof -
      have "\<forall>x\<in>set (filter tagged cs). base_entry (put_candidate bb c) (c_base x) (c_kind x) = None"
        using ok by (simp add: group_ok_def list_all_iff)
      then have "\<forall>x\<in>set (filter tagged cs). slot x \<noteq> slot c"
        unfolding base_entry_put_cand by (auto split: if_splits)
      then show ?thesis by (auto simp: find_None_iff)
    qed
    have r': "group_by_base bb (c # cs) = Inr bb'"
      unfolding group_by_base_Cons using True free r by simp
    have e': "base_entry bb' b k =
                 (case find (\<lambda>x. tagged x \<and> slot x = (b, k)) (c # cs) of
                    Some x \<Rightarrow> Some x | None \<Rightarrow> base_entry bb b k)" for b k
    proof (cases "slot c = (b, k)")
      case eq: True
      with nf have "find (\<lambda>x. tagged x \<and> slot x = (b, k)) cs = None" by simp
      with eq True show ?thesis
        unfolding find_slot_Cons e [of b k] base_entry_put by simp
    next
      case False
      then show ?thesis
        unfolding find_slot_Cons e [of b k] base_entry_put by (auto split: option.splits)
    qed
    have k': "fst ` set bb' = fst ` set bb \<union> c_base ` set (filter tagged (c # cs))"
      using k True by (auto simp: put_candidate_def dom_update)
    from r' d' e' k' show ?thesis by blast
  qed
qed

lemma base_entry_Nil: "base_entry [] b k = None"
  by (simp add: base_entry_def)

lemma group_ok_Nil_iff: "group_ok [] cs \<longleftrightarrow> distinct (map slot (filter tagged cs))"
  by (simp add: group_ok_def list_all_iff base_entry_Nil)

lemma find_slot_member:
  "distinct (map slot (filter tagged cs)) \<Longrightarrow> c \<in> set cs \<Longrightarrow> tagged c
   \<Longrightarrow> find (\<lambda>x. tagged x \<and> slot x = slot c) cs = Some c"
proof (induction cs)
  case Nil
  then show ?case by simp
next
  case (Cons a cs)
  show ?case
  proof (cases "tagged a \<and> slot a = slot c")
    case True
    have "a = c"
    proof (rule ccontr)
      assume "a \<noteq> c"
      with Cons.prems(2) have "c \<in> set (filter tagged cs)" using Cons.prems(3) by simp
      then have "slot c \<in> slot ` set (filter tagged cs)" by (rule imageI)
      with Cons.prems(1) True show False by simp
    qed
    with True show ?thesis by simp
  next
    case False
    then have "a \<noteq> c" using Cons.prems(3) by auto
    with Cons.prems have "c \<in> set cs" "distinct (map slot (filter tagged cs))"
      by (auto split: if_splits)
    from Cons.IH [OF this(2) this(1) Cons.prems(3)] False show ?thesis by auto
  qed
qed

lemma group_by_base_start:
  assumes "distinct (map slot (filter tagged cs))"
  shows "\<exists>bb. group_by_base [] cs = Inr bb \<and> distinct (map fst bb)
           \<and> (\<forall>b k. base_entry bb b k = find (\<lambda>x. tagged x \<and> slot x = (b, k)) cs)
           \<and> fst ` set bb = c_base ` set (filter tagged cs)"
proof -
  have ok: "group_ok [] cs" using assms by (simp add: group_ok_Nil_iff)
  have d: "distinct (map fst ([] :: by_base))" by simp
  from group_by_base_ok [OF ok d] obtain bb where
    r: "group_by_base [] cs = Inr bb" and d': "distinct (map fst bb)"
    and e: "\<And>b k. base_entry bb b k =
                 (case find (\<lambda>x. tagged x \<and> slot x = (b, k)) cs of
                    Some x \<Rightarrow> Some x | None \<Rightarrow> base_entry [] b k)"
    and k: "fst ` set bb = fst ` set ([] :: by_base) \<union> c_base ` set (filter tagged cs)"
    by blast
  have "base_entry bb b k = find (\<lambda>x. tagged x \<and> slot x = (b, k)) cs" for b k
    unfolding e [of b k] by (simp add: base_entry_Nil split: option.splits)
  then have "\<forall>b k. base_entry bb b k = find (\<lambda>x. tagged x \<and> slot x = (b, k)) cs" by blast
  moreover have "fst ` set bb = c_base ` set (filter tagged cs)" using k by simp
  ultimately show ?thesis using r d' by blast
qed

lemma sort_head_least:
  fixes xs :: "string list"
  assumes "sort xs = y # ys"
  shows "y \<in> set xs \<and> (\<forall>x\<in>set xs. y \<le> x)"
proof -
  have "set (sort xs) = set xs" by simp
  with assms have s: "set xs = insert y (set ys)" by simp
  have "sorted (sort xs)" by simp
  with assms have "\<forall>x\<in>set ys. y \<le> x" by simp
  with s show ?thesis by auto
qed

lemma mem_complete_bases:
  "b \<in> set (complete_bases bb) \<longleftrightarrow>
     (\<exists>mm. (b, mm) \<in> set bb \<and> mm KMain \<noteq> None \<and> mm KBackup \<noteq> None)"
  unfolding complete_bases_def by (induction bb) auto

lemma mem_main_bases:
  "b \<in> set (main_bases bb) \<longleftrightarrow> (\<exists>mm. (b, mm) \<in> set bb \<and> mm KMain \<noteq> None)"
  unfolding main_bases_def by (induction bb) auto

lemma base_entry_member:
  "distinct (map fst bb) \<Longrightarrow> (b, mm) \<in> set bb \<Longrightarrow> base_entry bb b = mm"
  by (simp add: base_entry_def)

lemma map_of_by_base:
  "b \<in> fst ` set bb \<Longrightarrow> map_of bb b = Some (base_entry bb b)"
  by (cases "map_of bb b") (simp_all add: base_entry_def map_of_eq_None_iff)

lemma complete_bases_iff:
  assumes "distinct (map fst bb)"
  shows "b \<in> set (complete_bases bb) \<longleftrightarrow>
           b \<in> fst ` set bb \<and> base_entry bb b KMain \<noteq> None \<and> base_entry bb b KBackup \<noteq> None"
proof
  assume "b \<in> set (complete_bases bb)"
  then obtain mm where m: "(b, mm) \<in> set bb" and p: "mm KMain \<noteq> None" "mm KBackup \<noteq> None"
    unfolding mem_complete_bases by blast
  from m have "fst (b, mm) \<in> fst ` set bb" by (rule imageI)
  moreover from base_entry_member [OF assms m] p
  have "base_entry bb b KMain \<noteq> None" "base_entry bb b KBackup \<noteq> None" by simp_all
  ultimately show "b \<in> fst ` set bb \<and> base_entry bb b KMain \<noteq> None \<and> base_entry bb b KBackup \<noteq> None"
    by simp
next
  assume a: "b \<in> fst ` set bb \<and> base_entry bb b KMain \<noteq> None \<and> base_entry bb b KBackup \<noteq> None"
  then have "map_of bb b = Some (base_entry bb b)" by (simp add: map_of_by_base)
  then have "(b, base_entry bb b) \<in> set bb" by (rule map_of_SomeD)
  with a show "b \<in> set (complete_bases bb)" unfolding mem_complete_bases by blast
qed

lemma candidates_nonempty: "candidates rs \<noteq> [] \<Longrightarrow> rs \<noteq> []"
  by (auto simp: candidates_def)

lemma select_base_complete:
  assumes d: "distinct (map fst bb)"
    and c: "sb \<in> set (complete_bases bb)"
    and least: "\<forall>b\<in>set (complete_bases bb). sb \<le> b"
  shows "select_base bb = Inr (Some sb)"
proof -
  from c have "sb \<in> set (sort (complete_bases bb))" by simp
  then have ne: "sort (complete_bases bb) \<noteq> []" by (metis empty_iff empty_set)
  then obtain y ys where s: "sort (complete_bases bb) = y # ys" by (cases "sort (complete_bases bb)") auto
  from sort_head_least [OF s] have y: "y \<in> set (complete_bases bb)" "\<forall>x\<in>set (complete_bases bb). y \<le> x"
    by simp_all
  from y(2) c have "y \<le> sb" by blast
  moreover from least y(1) have "sb \<le> y" by blast
  ultimately have "y = sb" by simp
  with s show ?thesis by (simp add: select_base_def)
qed

lemma assign_selected:
  assumes "map_of bb sb = Some mm" "mm KMain = Some m" "mm KBackup = Some b"
  shows "assign_main_backup cs bb (Some sb) =
           Inr [''main'' \<mapsto> to_endpoint ''main'' m, ''backup'' \<mapsto> to_endpoint ''backup'' b]"
  using assms by (simp add: assign_main_backup_def)

lemma decide_roles_pair:
  assumes aux: "length (filter (\<lambda>c. c_kind c = KAux) (candidates rs)) \<le> 1"
    and nodup: "distinct (map slot (filter tagged (candidates rs)))"
    and m: "m \<in> set (candidates rs)" "c_kind m = KMain"
    and b: "b \<in> set (candidates rs)" "c_kind b = KBackup" "c_base b = c_base m"
    and least: "\<And>m' b'. m' \<in> set (candidates rs) \<Longrightarrow> b' \<in> set (candidates rs)
                 \<Longrightarrow> c_kind m' = KMain \<Longrightarrow> c_kind b' = KBackup \<Longrightarrow> c_base b' = c_base m'
                 \<Longrightarrow> c_base m \<le> c_base m'"
  shows "decide_roles rs =
           Inr (with_aux (candidates rs)
                  [''main'' \<mapsto> to_endpoint ''main'' m, ''backup'' \<mapsto> to_endpoint ''backup'' b])"
proof -
  let ?cs = "candidates rs"
  have cne: "?cs \<noteq> []" using m(1) by auto
  then have rne: "rs \<noteq> []" by (rule candidates_nonempty)
  from group_by_base_start [OF nodup] obtain bb where
    g: "group_by_base [] ?cs = Inr bb" and d: "distinct (map fst bb)"
    and e: "\<And>b k. base_entry bb b k = find (\<lambda>x. tagged x \<and> slot x = (b, k)) ?cs"
    and k: "fst ` set bb = c_base ` set (filter tagged ?cs)"
    by blast
  have tm: "tagged m" and tb: "tagged b" using m(2) b(2) by (simp_all add: tagged_def)
  have em: "base_entry bb (c_base m) KMain = Some m"
    using find_slot_member [OF nodup m(1) tm] m(2) by (simp add: e slot_def)
  have eb: "base_entry bb (c_base m) KBackup = Some b"
    using find_slot_member [OF nodup b(1) tb] b(2,3) by (simp add: e slot_def)
  have "m \<in> set (filter tagged ?cs)" using m(1) tm by simp
  then have "c_base m \<in> c_base ` set (filter tagged ?cs)" by (rule imageI)
  then have key: "c_base m \<in> fst ` set bb" by (simp only: k)
  have comp: "c_base m \<in> set (complete_bases bb)"
    unfolding complete_bases_iff [OF d] using key em eb by simp
  have min: "\<forall>x\<in>set (complete_bases bb). c_base m \<le> x"
  proof
    fix x assume "x \<in> set (complete_bases bb)"
    then have x: "base_entry bb x KMain \<noteq> None" "base_entry bb x KBackup \<noteq> None"
      unfolding complete_bases_iff [OF d] by simp_all
    then obtain m' b' where f: "find (\<lambda>c. tagged c \<and> slot c = (x, KMain)) ?cs = Some m'"
        "find (\<lambda>c. tagged c \<and> slot c = (x, KBackup)) ?cs = Some b'"
      unfolding e by auto
    then have "m' \<in> set ?cs" "b' \<in> set ?cs" "c_kind m' = KMain" "c_kind b' = KBackup"
        "c_base m' = x" "c_base b' = x"
      by (auto simp: find_Some_iff slot_def)
    with least [of m' b'] show "c_base m \<le> x" by simp
  qed
  have sel: "select_base bb = Inr (Some (c_base m))"
    by (rule select_base_complete [OF d comp min])
  have asg: "assign_main_backup ?cs bb (Some (c_base m)) =
           Inr [''main'' \<mapsto> to_endpoint ''main'' m, ''backup'' \<mapsto> to_endpoint ''backup'' b]"
    by (rule assign_selected [OF map_of_by_base [OF key] em eb])
  have "\<not> 1 < length (filter (\<lambda>c. c_kind c = KAux) ?cs)" using aux by simp
  then show ?thesis
    using rne cne g sel asg
    by (simp add: decide_roles_def Let_def with_aux_def split: list.splits)
qed

lemma filter_nonplain_aux:
  "filter (\<lambda>c. c_kind c = KAux) cs = filter (\<lambda>c. c_kind c = KAux) (filter (\<lambda>c. c_kind c \<noteq> KPlain) cs)"
  by (induction cs) auto

lemma filter_nonplain_tagged:
  "filter tagged cs = filter tagged (filter (\<lambda>c. c_kind c \<noteq> KPlain) cs)"
  by (induction cs) (auto simp: tagged_def)

lemma decide_roles_one_pair:
  assumes np: "filter (\<lambda>c. c_kind c \<noteq> KPlain) (candidates rs) = [m, b]
             \<or> filter (\<lambda>c. c_kind c \<noteq> KPlain) (candidates rs) = [b, m]"
    and km: "c_kind m = KMain" and kb: "c_kind b = KBackup" and base: "c_base b = c_base m"
  shows "decide_roles rs =
           Inr [''main'' \<mapsto> to_endpoint ''main'' m, ''backup'' \<mapsto> to_endpoint ''backup'' b]"
proof -
  let ?cs = "candidates rs"
  let ?np = "filter (\<lambda>c. c_kind c \<noteq> KPlain) ?cs"
  have s: "set ?np = {m, b}"
    using np
  proof
    assume e: "?np = [m, b]"
    show ?thesis unfolding e by simp
  next
    assume e: "?np = [b, m]"
    show ?thesis unfolding e by auto
  qed
  have inp: "x \<in> {m, b}" if "x \<in> set ?cs" "c_kind x \<noteq> KPlain" for x
    using that unfolding s [symmetric] by simp
  have noaux: "filter (\<lambda>c. c_kind c = KAux) ?cs = []"
    unfolding filter_empty_conv
  proof
    fix x assume x: "x \<in> set ?cs"
    show "c_kind x \<noteq> KAux"
    proof
      assume a: "c_kind x = KAux"
      with x inp [of x] have "x = m \<or> x = b" by simp
      with a km kb show False by auto
    qed
  qed
  have ft: "filter tagged ?cs = filter tagged ?np" by (rule filter_nonplain_tagged)
  have tg: "filter tagged ?cs = [m, b] \<or> filter tagged ?cs = [b, m]"
    using np
  proof
    assume e: "?np = [m, b]"
    show ?thesis unfolding ft e using km kb by (simp add: tagged_def)
  next
    assume e: "?np = [b, m]"
    show ?thesis unfolding ft e using km kb by (simp add: tagged_def)
  qed
  have nodup: "distinct (map slot (filter tagged ?cs))"
    using tg km kb by (auto simp: slot_def)
  have mem: "m \<in> set ?cs" "b \<in> set ?cs"
    using s by auto
  have least: "c_base m \<le> c_base m'"
    if "m' \<in> set ?cs" "c_kind m' = KMain" for m'
  proof -
    from that have "m' \<in> {m, b}" by (intro inp) simp_all
    with that(2) kb have "m' = m" by auto
    then show ?thesis by simp
  qed
  have "decide_roles rs =
           Inr (with_aux ?cs
                  [''main'' \<mapsto> to_endpoint ''main'' m, ''backup'' \<mapsto> to_endpoint ''backup'' b])"
    by (rule decide_roles_pair [OF _ nodup mem(1) km mem(2) kb base])
       (simp_all add: noaux least)
  then show ?thesis by (simp add: with_aux_def noaux)
qed

lemma with_aux_main_backup:
  "with_aux cs a ''main'' = a ''main''" "with_aux cs a ''backup'' = a ''backup''"
  by (simp_all add: with_aux_def split: list.splits)

text \<open>
  Claim C1. First part: when the candidates that are not plain are exactly one
  primary-tagged and one backup-tagged candidate of the same base (in either
  order of discovery), the decision returns that primary as main and that
  backup as backup, and nothing else, whatever the plain candidates are.
  Second part: when no conflict is raised (at most one auxiliary candidate,
  no two tagged candidates with the same base and kind) and \<open>m\<close>, \<open>b\<close> are the
  primary and backup of a complete base that is lexicographically least among
  the complete bases, the decision returns \<open>m\<close> as main and \<open>b\<close> as backup.
\<close>

theorem decide_roles_complete_pair:
  "(\<forall>m b. (filter (\<lambda>c. c_kind c \<noteq> KPlain) (candidates rs) = [m, b]
             \<or> filter (\<lambda>c. c_kind c \<noteq> KPlain) (candidates rs) = [b, m])
          \<and> c_kind m = KMain \<and> c_kind b = KBackup \<and> c_base b = c_base m
      \<longrightarrow> decide_roles rs =
            Inr [''main'' \<mapsto> to_endpoint ''main'' m, ''backup'' \<mapsto> to_endpoint ''backup'' b])
   \<and> (\<forall>m b. length (filter (\<lambda>c. c_kind c = KAux) (candidates rs)) \<le> 1
          \<and> distinct (map slot (filter tagged (candidates rs)))
          \<and> m \<in> set (candidates rs) \<and> c_kind m = KMain
          \<and> b \<in> set (candidates rs) \<and> c_kind b = KBackup \<and> c_base b = c_base m
          \<and> (\<forall>m' b'. m' \<in> set (candidates rs) \<and> b' \<in> set (candidates rs)
                 \<and> c_kind m' = KMain \<and> c_kind b' = KBackup \<and> c_base b' = c_base m'
                 \<longrightarrow> c_base m \<le> c_base m')
      \<longrightarrow> (\<exists>a. decide_roles rs = Inr a
               \<and> a ''main'' = Some (to_endpoint ''main'' m)
               \<and> a ''backup'' = Some (to_endpoint ''backup'' b)))"
proof (intro conjI allI impI)
  fix m b
  assume "(filter (\<lambda>c. c_kind c \<noteq> KPlain) (candidates rs) = [m, b]
             \<or> filter (\<lambda>c. c_kind c \<noteq> KPlain) (candidates rs) = [b, m])
          \<and> c_kind m = KMain \<and> c_kind b = KBackup \<and> c_base b = c_base m"
  then show "decide_roles rs =
            Inr [''main'' \<mapsto> to_endpoint ''main'' m, ''backup'' \<mapsto> to_endpoint ''backup'' b]"
    by (intro decide_roles_one_pair) simp_all
next
  fix m b
  assume h: "length (filter (\<lambda>c. c_kind c = KAux) (candidates rs)) \<le> 1
          \<and> distinct (map slot (filter tagged (candidates rs)))
          \<and> m \<in> set (candidates rs) \<and> c_kind m = KMain
          \<and> b \<in> set (candidates rs) \<and> c_kind b = KBackup \<and> c_base b = c_base m
          \<and> (\<forall>m' b'. m' \<in> set (candidates rs) \<and> b' \<in> set (candidates rs)
                 \<and> c_kind m' = KMain \<and> c_kind b' = KBackup \<and> c_base b' = c_base m'
                 \<longrightarrow> c_base m \<le> c_base m')"
  have "decide_roles rs =
           Inr (with_aux (candidates rs)
                  [''main'' \<mapsto> to_endpoint ''main'' m, ''backup'' \<mapsto> to_endpoint ''backup'' b])"
    by (rule decide_roles_pair) (use h in blast)+
  then show "\<exists>a. decide_roles rs = Inr a
               \<and> a ''main'' = Some (to_endpoint ''main'' m)
               \<and> a ''backup'' = Some (to_endpoint ''backup'' b)"
    by (simp add: with_aux_main_backup)
qed

lemma in_candidates:
  assumes "(a, ws) \<in> set rs" "(n, JStr i) \<in> set ws" "i \<noteq> []" "classify n = (k, b)"
  shows "\<lparr>c_ip = a, c_ws_name = n, c_ws_id = i, c_kind = k, c_base = b\<rparr> \<in> set (candidates rs)"
proof -
  have "\<lparr>c_ip = a, c_ws_name = n, c_ws_id = i, c_kind = k, c_base = b\<rparr>
          \<in> set (candidate_of a (n, JStr i))"
    using assms(3,4) by (simp add: candidate_of_def)
  with assms(1,2) show ?thesis
    unfolding candidates_def by force
qed

lemma not_distinct_map:
  "x \<in> set xs \<Longrightarrow> y \<in> set xs \<Longrightarrow> x \<noteq> y \<Longrightarrow> f x = f y \<Longrightarrow> \<not> distinct (map f xs)"
  by (metis distinct_map inj_onD)

text \<open>
  Claim C2, as amended. Two responders at different addresses, each with a
  workspace whose identifier is a non-empty string, the two names classifying
  to the same kind (primary or backup) and the same base: the decision raises
  Conflict and assigns nothing.
\<close>

theorem decide_roles_duplicate_conflict:
  assumes "(a1, ws1) \<in> set rs" "(a2, ws2) \<in> set rs" "a1 \<noteq> a2"
    and "(n1, JStr i1) \<in> set ws1" "(n2, JStr i2) \<in> set ws2" "i1 \<noteq> []" "i2 \<noteq> []"
    and "classify n1 = (k, b)" "classify n2 = (k, b)" "k = KMain \<or> k = KBackup"
  shows "decide_roles rs = Inl ConflictError"
proof -
  let ?c1 = "\<lparr>c_ip = a1, c_ws_name = n1, c_ws_id = i1, c_kind = k, c_base = b\<rparr>"
  let ?c2 = "\<lparr>c_ip = a2, c_ws_name = n2, c_ws_id = i2, c_kind = k, c_base = b\<rparr>"
  let ?cs = "candidates rs"
  have m1: "?c1 \<in> set ?cs" by (rule in_candidates [OF assms(1,4,6,8)])
  have m2: "?c2 \<in> set ?cs" by (rule in_candidates [OF assms(2,5,7,9)])
  have t: "tagged ?c1" "tagged ?c2" using assms(10) by (simp_all add: tagged_def)
  have "?c1 \<in> set (filter tagged ?cs)" "?c2 \<in> set (filter tagged ?cs)"
    using m1 m2 t by simp_all
  moreover have "?c1 \<noteq> ?c2" using assms(3) by simp
  moreover have "slot ?c1 = slot ?c2" by (simp add: slot_def)
  ultimately have "\<not> distinct (map slot (filter tagged ?cs))" by (rule not_distinct_map)
  then have "\<not> group_ok [] ?cs" by (simp add: group_ok_Nil_iff)
  then have g: "group_by_base [] ?cs = Inl ConflictError" by (rule group_by_base_conflict)
  have "?cs \<noteq> []" using m1 by auto
  moreover from this have "rs \<noteq> []" by (rule candidates_nonempty)
  ultimately show ?thesis using g by (simp add: decide_roles_def Let_def)
qed

lemmas classify_eval = classify_def endswith_def slice_before_last_def
  EXPECTED_WS_MAIN_def EXPECTED_WS_BACKUP_def SUFFIX_MAIN_def SUFFIX_BACKUP_def SUFFIX_AUX1_def

lemma candidates_gala:
  "candidates [(''10.0.0.1'', [(''gala_main'', JStr ''M''), (''gala_backup'', JStr ''K'')]),
               (''10.0.0.9'', [(''Notes'', JStr ''P'')])] =
   [\<lparr>c_ip = ''10.0.0.1'', c_ws_name = ''gala_main'', c_ws_id = ''M'', c_kind = KMain, c_base = ''gala''\<rparr>,
    \<lparr>c_ip = ''10.0.0.1'', c_ws_name = ''gala_backup'', c_ws_id = ''K'', c_kind = KBackup, c_base = ''gala''\<rparr>,
    \<lparr>c_ip = ''10.0.0.9'', c_ws_name = ''Notes'', c_ws_id = ''P'', c_kind = KPlain, c_base = ''Notes''\<rparr>]"
  by (simp add: candidates_def candidate_of_def classify_eval)

lemma candidates_two_pairs:
  "candidates [(''10.0.0.1'', [(''b_main'', JStr ''M1''), (''b_backup'', JStr ''K1'')]),
               (''10.0.0.2'', [(''a_main'', JStr ''M2''), (''a_backup'', JStr ''K2'')])] =
   [\<lparr>c_ip = ''10.0.0.1'', c_ws_name = ''b_main'', c_ws_id = ''M1'', c_kind = KMain, c_base = ''b''\<rparr>,
    \<lparr>c_ip = ''10.0.0.1'', c_ws_name = ''b_backup'', c_ws_id = ''K1'', c_kind = KBackup, c_base = ''b''\<rparr>,
    \<lparr>c_ip = ''10.0.0.2'', c_ws_name = ''a_main'', c_ws_id = ''M2'', c_kind = KMain, c_base = ''a''\<rparr>,
    \<lparr>c_ip = ''10.0.0.2'', c_ws_name = ''a_backup'', c_ws_id = ''K2'', c_kind = KBackup, c_base = ''a''\<rparr>]"
  by (simp add: candidates_def candidate_of_def classify_eval)

theorem decide_roles_complete_pair_witness:
  "decide_roles [(''10.0.0.1'', [(''gala_main'', JStr ''M''), (''gala_backup'', JStr ''K'')]),
                 (''10.0.0.9'', [(''Notes'', JStr ''P'')])] =
     Inr [''main'' \<mapsto> \<lparr>ip = ''10.0.0.1'', role = ''main'', workspace_name = Some ''gala_main'',
                        workspace_id = Some ''M'', last_seen_mono = 0\<rparr>,
          ''backup'' \<mapsto> \<lparr>ip = ''10.0.0.1'', role = ''backup'', workspace_name = Some ''gala_backup'',
                        workspace_id = Some ''K'', last_seen_mono = 0\<rparr>]
   \<and> (\<exists>a. decide_roles [(''10.0.0.1'', [(''b_main'', JStr ''M1''), (''b_backup'', JStr ''K1'')]),
                         (''10.0.0.2'', [(''a_main'', JStr ''M2''), (''a_backup'', JStr ''K2'')])] = Inr a
          \<and> a ''main'' = Some \<lparr>ip = ''10.0.0.2'', role = ''main'', workspace_name = Some ''a_main'',
                        workspace_id = Some ''M2'', last_seen_mono = 0\<rparr>
          \<and> a ''backup'' = Some \<lparr>ip = ''10.0.0.2'', role = ''backup'', workspace_name = Some ''a_backup'',
                        workspace_id = Some ''K2'', last_seen_mono = 0\<rparr>)"
proof
  let ?m = "\<lparr>c_ip = ''10.0.0.1'', c_ws_name = ''gala_main'', c_ws_id = ''M'', c_kind = KMain, c_base = ''gala''\<rparr>"
  let ?b = "\<lparr>c_ip = ''10.0.0.1'', c_ws_name = ''gala_backup'', c_ws_id = ''K'', c_kind = KBackup, c_base = ''gala''\<rparr>"
  show "decide_roles [(''10.0.0.1'', [(''gala_main'', JStr ''M''), (''gala_backup'', JStr ''K'')]),
                 (''10.0.0.9'', [(''Notes'', JStr ''P'')])] =
     Inr [''main'' \<mapsto> \<lparr>ip = ''10.0.0.1'', role = ''main'', workspace_name = Some ''gala_main'',
                        workspace_id = Some ''M'', last_seen_mono = 0\<rparr>,
          ''backup'' \<mapsto> \<lparr>ip = ''10.0.0.1'', role = ''backup'', workspace_name = Some ''gala_backup'',
                        workspace_id = Some ''K'', last_seen_mono = 0\<rparr>]"
    using decide_roles_complete_pair [where rs = "[(''10.0.0.1'', [(''gala_main'', JStr ''M''), (''gala_backup'', JStr ''K'')]),
                 (''10.0.0.9'', [(''Notes'', JStr ''P'')])]", THEN conjunct1, rule_format, of ?m ?b]
    by (simp add: candidates_gala to_endpoint_def)
next
  let ?m = "\<lparr>c_ip = ''10.0.0.2'', c_ws_name = ''a_main'', c_ws_id = ''M2'', c_kind = KMain, c_base = ''a''\<rparr>"
  let ?b = "\<lparr>c_ip = ''10.0.0.2'', c_ws_name = ''a_backup'', c_ws_id = ''K2'', c_kind = KBackup, c_base = ''a''\<rparr>"
  show "\<exists>a. decide_roles [(''10.0.0.1'', [(''b_main'', JStr ''M1''), (''b_backup'', JStr ''K1'')]),
                         (''10.0.0.2'', [(''a_main'', JStr ''M2''), (''a_backup'', JStr ''K2'')])] = Inr a
          \<and> a ''main'' = Some \<lparr>ip = ''10.0.0.2'', role = ''main'', workspace_name = Some ''a_main'',
                        workspace_id = Some ''M2'', last_seen_mono = 0\<rparr>
          \<and> a ''backup'' = Some \<lparr>ip = ''10.0.0.2'', role = ''backup'', workspace_name = Some ''a_backup'',
                        workspace_id = Some ''K2'', last_seen_mono = 0\<rparr>"
  proof -
    let ?rs = "[(''10.0.0.1'', [(''b_main'', JStr ''M1''), (''b_backup'', JStr ''K1'')]),
                (''10.0.0.2'', [(''a_main'', JStr ''M2''), (''a_backup'', JStr ''K2'')])]"
    have least: "\<forall>m' b'. m' \<in> set (candidates ?rs) \<and> b' \<in> set (candidates ?rs)
                 \<and> c_kind m' = KMain \<and> c_kind b' = KBackup \<and> c_base b' = c_base m'
                 \<longrightarrow> c_base ?m \<le> c_base m'"
      unfolding candidates_two_pairs by auto
    have rest: "length (filter (\<lambda>c. c_kind c = KAux) (candidates ?rs)) \<le> 1
          \<and> distinct (map slot (filter tagged (candidates ?rs)))
          \<and> ?m \<in> set (candidates ?rs) \<and> c_kind ?m = KMain
          \<and> ?b \<in> set (candidates ?rs) \<and> c_kind ?b = KBackup \<and> c_base ?b = c_base ?m"
      unfolding candidates_two_pairs by (simp add: tagged_def slot_def)
    from decide_roles_complete_pair [where rs = ?rs, THEN conjunct2, rule_format, of ?m ?b] rest least
    show ?thesis by (simp add: to_endpoint_def)
  qed
qed

lemma classify_show_main: "classify ''show_main'' = (KMain, ''__legacy_expected__'')"
  by (simp add: classify_eval)

theorem decide_roles_duplicate_conflict_witness:
  "decide_roles [(''10.0.0.1'', [(''show_main'', JStr ''id-1'')]),
                 (''10.0.0.2'', [(''show_main'', JStr ''id-2'')])] = Inl ConflictError"
  by (rule decide_roles_duplicate_conflict [of "''10.0.0.1''" "[(''show_main'', JStr ''id-1'')]" _
                 "''10.0.0.2''" "[(''show_main'', JStr ''id-2'')]"
                 "''show_main''" "''id-1''" "''show_main''" "''id-2''" KMain "''__legacy_expected__''"])
     (simp_all add: classify_show_main)

text \<open>
  Claim C2 as stated fails when the identifiers are empty strings: both
  workspaces are skipped before any grouping, and the decision raises
  NoResponders, not Conflict.
\<close>

theorem decide_roles_duplicate_conflict_counterexample:
  "classify ''show_main'' = (KMain, ''__legacy_expected__'')
   \<and> decide_roles [(''10.0.0.1'', [(''show_main'', JStr [])]),
                   (''10.0.0.2'', [(''show_main'', JStr [])])] = Inl NoRespondersError
   \<and> decide_roles [(''10.0.0.1'', [(''show_main'', JStr [])]),
                   (''10.0.0.2'', [(''show_main'', JStr [])])] \<noteq> Inl ConflictError"
  by (simp add: classify_show_main decide_roles_def candidates_def candidate_of_def)

section \<open>Properties of the workspace listing\<close>

lemma preferred_py_or: "py_or (py_or (dict_get d k1) (dict_get d k2)) (dict_get d k3) = preferred d k1 k2 k3"
  by (simp add: py_or_def preferred_def)

lemma parse_loop_step:
  "parse_loop out (it # its) =
     (case listed it of
        Some (k, v) \<Rightarrow> parse_loop (AList.update k v out) its
      | None \<Rightarrow> parse_loop out its)"
  by (simp add: preferred_py_or listed_def split: json.splits)

lemma map_of_parse_loop:
  "map_of (parse_loop out its) = map_of out ++ map_of (rev (List.map_filter listed its))"
proof (induction its arbitrary: out)
  case Nil
  then show ?case by (simp add: List.map_filter_simps)
next
  case (Cons it its)
  show ?case
  proof (cases "listed it")
    case None
    then show ?thesis
      unfolding parse_loop_step by (simp add: Cons.IH List.map_filter_simps)
  next
    case (Some kv)
    obtain k v where kv: "kv = (k, v)" by (cases kv)
    have "map_of (AList.update k v out) ++ map_of (rev (List.map_filter listed its))
          = map_of out ++ map_of (rev (List.map_filter listed its) @ [(k, v)])"
      by (simp add: update_conv' map_add_upd_left map_add_assoc [symmetric]) 
    then show ?thesis
      unfolding parse_loop_step using Some kv by (simp add: Cons.IH List.map_filter_simps)
  qed
qed

lemma distinct_parse_loop:
  "distinct (map fst out) \<Longrightarrow> distinct (map fst (parse_loop out its))"
proof (induction its arbitrary: out)
  case Nil
  then show ?case by simp
next
  case (Cons it its)
  then show ?case
    unfolding parse_loop_step by (auto split: option.splits intro: distinct_update)
qed

text \<open>
  Claim parse_workspaces_listing, as amended. For an envelope that is an object with status "ok"
  and a list as data, the mapping returned gives each key the identifier of
  the last listed entry with that key, and its keys are distinct; the key of an
  entry is its name (the first truthy of displayName, name, fileName) with
  every occurrence of .qlab5 and then of .qlab4 removed, the identifier is the
  first truthy of uniqueID, id, workspace\_id, and entries whose name or
  identifier is not a string are not listed. Every other envelope yields
  the empty mapping.
\<close>

theorem parse_workspaces_listing:
  "(\<forall>r data. reply = JObj r \<and> dict_get r ''status'' = JStr ''ok'' \<and> dict_get r ''data'' = JArr data
      \<longrightarrow> map_of (parse_workspaces reply) = map_of (rev (List.map_filter listed data))
          \<and> distinct (map fst (parse_workspaces reply)))
   \<and> ((\<nexists>r data. reply = JObj r \<and> dict_get r ''status'' = JStr ''ok'' \<and> dict_get r ''data'' = JArr data)
      \<longrightarrow> parse_workspaces reply = [])"
proof (intro conjI allI impI)
  fix r data
  assume a: "reply = JObj r \<and> dict_get r ''status'' = JStr ''ok'' \<and> dict_get r ''data'' = JArr data"
  then have p: "parse_workspaces reply = parse_loop [] data"
    by (simp add: parse_workspaces_def)
  show "map_of (parse_workspaces reply) = map_of (rev (List.map_filter listed data))"
    unfolding p map_of_parse_loop by simp
  show "distinct (map fst (parse_workspaces reply))"
    unfolding p by (rule distinct_parse_loop) simp
next
  assume n: "\<nexists>r data. reply = JObj r \<and> dict_get r ''status'' = JStr ''ok'' \<and> dict_get r ''data'' = JArr data"
  show "parse_workspaces reply = []"
  proof (cases reply)
    case (JObj r)
    with n have "dict_get r ''status'' \<noteq> JStr ''ok'' \<or> (\<forall>data. dict_get r ''data'' \<noteq> JArr data)"
      by blast
    with JObj show ?thesis
      by (auto simp: parse_workspaces_def split: json.splits)
  qed (simp_all add: parse_workspaces_def)
qed

lemma listed_example:
  "listed (JObj [(''displayName'', JStr []), (''name'', JStr ''show_main.qlab5''),
                 (''uniqueID'', JStr ''W1'')]) = Some (''show_main'', ''W1'')"
  by (simp add: listed_def preferred_def dict_get_def py_replace_def)

theorem parse_workspaces_listing_witness:
  "parse_workspaces
     (JObj [(''status'', JStr ''ok''),
            (''data'', JArr [JObj [(''displayName'', JStr []), (''name'', JStr ''show_main.qlab5''),
                                   (''uniqueID'', JStr ''W1'')],
                             JNull])])
   = [(''show_main'', ''W1'')]
   \<and> parse_workspaces (JObj [(''status'', JStr ''error''), (''data'', JArr [])]) = []"
proof
  let ?r = "[(''status'', JStr ''ok''),
            (''data'', JArr [JObj [(''displayName'', JStr []), (''name'', JStr ''show_main.qlab5''),
                                   (''uniqueID'', JStr ''W1'')],
                             JNull])]"
  let ?data = "[JObj [(''displayName'', JStr []), (''name'', JStr ''show_main.qlab5''),
                                   (''uniqueID'', JStr ''W1'')],
                             JNull]"
  have h: "JObj ?r = JObj ?r \<and> dict_get ?r ''status'' = JStr ''ok'' \<and> dict_get ?r ''data'' = JArr ?data"
    by (simp add: dict_get_def)
  have l: "List.map_filter listed ?data = [(''show_main'', ''W1'')]"
    by (simp add: List.map_filter_simps listed_example) (simp add: listed_def)
  note c = parse_workspaces_listing [where reply = "JObj ?r", THEN conjunct1, rule_format, OF h]
  have m: "map_of (parse_workspaces (JObj ?r)) = map_of [(''show_main'', ''W1'')]"
    using c unfolding l by simp
  have d: "distinct (map fst (parse_workspaces (JObj ?r)))"
    using c by blast
  have "parse_workspaces (JObj ?r) = [(''show_main'', ''W1'')]"
    by (simp add: parse_workspaces_def dict_get_def py_or_def py_replace_def)
  then show "parse_workspaces (JObj ?r) = [(''show_main'', ''W1'')]" using m d by simp
next
  have n: "\<nexists>r data. JObj [(''status'', JStr ''error''), (''data'', JArr [])] = JObj r
            \<and> dict_get r ''status'' = JStr ''ok'' \<and> dict_get r ''data'' = JArr data"
    by (simp add: dict_get_def)
  from parse_workspaces_listing [where reply = "JObj [(''status'', JStr ''error''), (''data'', JArr [])]",
           THEN conjunct2, rule_format, OF n]
  show "parse_workspaces (JObj [(''status'', JStr ''error''), (''data'', JArr [])]) = []" .
qed

text \<open>
  Claim parse_workspaces_listing as stated fails on a name that holds the format suffix elsewhere
  than at its end: the suffix is removed there too.
\<close>

theorem parse_workspaces_listing_counterexample:
  "strip_format_suffix ''show.qlab5.old'' = ''show.qlab5.old''
   \<and> parse_workspaces
       (JObj [(''status'', JStr ''ok''),
              (''data'', JArr [JObj [(''displayName'', JStr ''show.qlab5.old''),
                                     (''uniqueID'', JStr ''W1'')]])])
     = [(''show.old'', ''W1'')]"
  by (simp add: strip_format_suffix_def endswith_def parse_workspaces_def dict_get_def py_or_def
      py_replace_def)

section \<open>Properties of the LED renderer\<close>



lemma set_state_toggle_pos: "0 < toggle (set_state s b t c)"
  by (simp add: set_state_def TOGGLE_MIN_def max_def)





section \<open>Properties of the inbound dispatcher\<close>

lemma endswith_last:
  assumes "endswith s suf" "suf \<noteq> []"
  shows "last s = last suf"
proof -
  from assms have l: "length suf \<le> length s" and d: "drop (length s - length suf) s = suf"
    by (simp_all add: endswith_def)
  from l assms(2) have "length s - length suf < length s" by (cases suf) auto
  then have "last (drop (length s - length suf) s) = last s" by (rule last_drop)
  with d show ?thesis by simp
qed

lemma thump_not_connect: "endswith a ''/thump'' \<Longrightarrow> \<not> endswith a ''/connect''"
proof
  assume "endswith a ''/thump''" "endswith a ''/connect''"
  then have "last a = last ''/thump''" "last a = last ''/connect''"
    by (auto dest: endswith_last)
  then show False by simp
qed

lemma thump_not_workspaces: "endswith a ''/thump'' \<Longrightarrow> a \<noteq> ''/workspaces''"
  by (auto simp: endswith_def)

lemma mark_seen_last_seen: "last_seen_by_ip (mark_seen a w) a = Some (clock w (ticks w))"
  by (simp add: mark_seen_def mono_def)

lemma dispatch_thump:
  assumes "dict_get j ''address'' = JStr a" "endswith a ''/thump''"
    and "dict_get j ''status'' = JStr ''ok''"
    and "nonempty_str (dict_get j ''workspace_id'')"
    and "\<not> startswith address ''/reply/workspaces''"
  shows "dispatch_reply src address j w = mark_seen src w"
proof -
  have inv: "dict_get_or j ''address'' (JStr []) = JStr a"
    using assms(1) by (auto simp: dict_get_def dict_get_or_def split: option.splits)
  show ?thesis
    using assms(2-5) thump_not_connect [OF assms(2)] thump_not_workspaces [OF assms(2)]
    by (simp add: dispatch_reply_def inv Let_def str_endswith_def)
qed

text \<open>
  Claim dispatch_thump_marks_seen, as amended. An inbound reply whose payload, of at most 200000
  characters, parses as a JSON object with an inner address ending with
  /thump, status "ok" and a workspace\_id that is a non-empty string, received
  under an envelope address that does not start with /reply/workspaces, makes
  the dispatcher record the current clock reading as the source address's
  last-seen time.
\<close>

theorem dispatch_thump_marks_seen:
  assumes "args = x # rest" and "x = AStr s \<or> (\<exists>b. x = ABytes b \<and> decode_utf8 b = s)"
    and "length s \<le> 200000" and "json_loads s = Some (JObj j)"
    and "dict_get j ''address'' = JStr a" and "endswith a ''/thump''"
    and "dict_get j ''status'' = JStr ''ok''"
    and "nonempty_str (dict_get j ''workspace_id'')"
    and "\<not> startswith address ''/reply/workspaces''"
  shows "last_seen_by_ip (osc_handler json_loads decode_utf8 (Some (src, port)) address args w) src
           = Some (clock w (ticks w))"
proof -
  have "osc_handler json_loads decode_utf8 (Some (src, port)) address args w
          = dispatch_reply src address j w"
    using assms(1-4) by (auto simp: osc_handler_def)
  then show ?thesis
    by (simp add: dispatch_thump [OF assms(5-9)] mark_seen_last_seen)
qed

theorem dispatch_thump_marks_seen_witness:
  "last_seen_by_ip
     (osc_handler
        (\<lambda>s. Some (JObj [(''address'', JStr ''/workspace/W/thump''), (''status'', JStr ''ok''),
                          (''workspace_id'', JStr ''W'')]))
        id (Some (''10.0.0.1'', 53000)) ''/reply/workspace/W/thump'' [AStr ''payload'']
        (world_init (\<lambda>n. 100 + of_nat n) (\<lambda>n. None)))
     ''10.0.0.1'' = Some 100"
  using dispatch_thump_marks_seen [of "[AStr ''payload'']" "AStr ''payload''" "[]" "''payload''" id
      "\<lambda>s. Some (JObj [(''address'', JStr ''/workspace/W/thump''), (''status'', JStr ''ok''),
                          (''workspace_id'', JStr ''W'')])"
      "[(''address'', JStr ''/workspace/W/thump''), (''status'', JStr ''ok''),
                          (''workspace_id'', JStr ''W'')]"
      "''/workspace/W/thump''" "''/reply/workspace/W/thump''" "''10.0.0.1''" 53000
      "world_init (\<lambda>n. 100 + of_nat n) (\<lambda>n. None)"]
  by (simp add: dict_get_def endswith_def startswith_def nonempty_str_def world_init_def)

text \<open>
  Claim dispatch_thump_marks_seen as stated fails for a reply without a workspace identifier, and
  for one received under an envelope address that starts with
  /reply/workspaces: neither marks the source address.
\<close>

theorem dispatch_thump_marks_seen_counterexample:
  "last_seen_by_ip
     (osc_handler
        (\<lambda>s. Some (JObj [(''address'', JStr ''/workspace/W/thump''), (''status'', JStr ''ok'')]))
        id (Some (''10.0.0.1'', 53000)) ''/reply/workspace/W/thump'' [AStr ''payload'']
        (world_init (\<lambda>n. 100 + of_nat n) (\<lambda>n. None)))
     ''10.0.0.1'' = None
   \<and> last_seen_by_ip
     (osc_handler
        (\<lambda>s. Some (JObj [(''address'', JStr ''/workspace/W/thump''), (''status'', JStr ''ok''),
                          (''workspace_id'', JStr ''W'')]))
        id (Some (''10.0.0.1'', 53000)) ''/reply/workspaces'' [AStr ''payload'']
        (world_init (\<lambda>n. 100 + of_nat n) (\<lambda>n. None)))
     ''10.0.0.1'' = None"
  by (simp add: osc_handler_def dispatch_reply_def dict_get_def dict_get_or_def Let_def
      startswith_def endswith_def str_endswith_def nonempty_str_def is_str_def ACK_SUFFIXES_def
      world_init_def waiters_set_def discovery_add_def)

section \<open>Frame properties of the helpers and properties of the heartbeat\<close>

lemma same_tables_refl [simp]: "same_tables w w"
  by (simp add: same_tables_def)

lemma same_tables_trans: "same_tables w w1 \<Longrightarrow> same_tables w1 w2 \<Longrightarrow> same_tables w w2"
  by (simp add: same_tables_def)

lemma appended_refl [simp]: "appended P w w"
  by (simp add: appended_def)

lemma appended_trans: "appended P w w1 \<Longrightarrow> appended P w1 w2 \<Longrightarrow> appended P w w2"
  unfolding appended_def by (metis append.assoc list_all_append)

lemma appended_weaken: "appended P w w' \<Longrightarrow> appended (\<lambda>_. True) w w'"
  unfolding appended_def by (auto simp: list_all_iff)

lemma appended_length: "appended P w w' \<Longrightarrow> length (outq w) \<le> length (outq w')"
  unfolding appended_def by auto

lemma same_outq_appended: "outq w' = outq w \<Longrightarrow> appended P w w'"
  by (simp add: appended_def)

lemma mono_frame:
  "same_tables w (snd (mono w))" "outq (snd (mono w)) = outq w"
  "ticks (snd (mono w)) = Suc (ticks w)" "fst (mono w) = clock w (ticks w)"
  "waits (snd (mono w)) = waits w"
  by (simp_all add: mono_def same_tables_def)

lemma mark_seen_frame:
  "same_tables w (mark_seen a w)" "outq (mark_seen a w) = outq w"
  "waits (mark_seen a w) = waits w"
  by (simp_all add: mark_seen_def mono_def same_tables_def)

lemma sendw_send_frame:
  "same_tables w (sendw_send a p x w)"
  "outq (sendw_send a p x w) = outq w @ [\<lparr>m_ip = a, m_path = p, m_arg = x\<rparr>]"
  "ticks (sendw_send a p x w) = ticks w" "waits (sendw_send a p x w) = waits w"
  by (simp_all add: sendw_send_def same_tables_def)

lemma waiters_frame:
  "same_tables w (waiters_arm k w)" "outq (waiters_arm k w) = outq w"
  "ticks (waiters_arm k w) = ticks w" "waits (waiters_arm k w) = waits w"
  "same_tables w (waiters_set k p w)" "outq (waiters_set k p w) = outq w"
  "ticks (waiters_set k p w) = ticks w" "waits (waiters_set k p w) = waits w"
  "same_tables w (waiters_cleanup k w)" "outq (waiters_cleanup k w) = outq w"
  "ticks (waiters_cleanup k w) = ticks w" "waits (waiters_cleanup k w) = waits w"
  "same_tables w (snd (waiters_pop k w))" "outq (snd (waiters_pop k w)) = outq w"
  "ticks (snd (waiters_pop k w)) = ticks w" "waits (snd (waiters_pop k w)) = waits w"
  by (simp_all add: waiters_arm_def waiters_set_def waiters_cleanup_def waiters_pop_def
      same_tables_def)

lemma wait_reply_frame:
  "same_tables w (snd (wait_reply k w))" "outq (snd (wait_reply k w)) = outq w"
  "ticks (snd (wait_reply k w)) = ticks w" "waits (snd (wait_reply k w)) = Suc (waits w)"
  by (simp_all add: wait_reply_def waiters_set_def same_tables_def split: option.splits)

lemma send_frame:
  "same_tables w (send_app a p xs w)" "ticks (send_app a p xs w) = ticks w"
  "waits (send_app a p xs w) = waits w"
  "outq (send_app a p xs w) = outq w @ [\<lparr>m_ip = a, m_path = p, m_arg = pack_args xs\<rparr>]"
  "same_tables w (send_ws a i sfx xs w)" "ticks (send_ws a i sfx xs w) = ticks w"
  "waits (send_ws a i sfx xs w) = waits w"
  "outq (send_ws a i sfx xs w) = outq w @ [\<lparr>m_ip = a, m_path = ws_path i sfx, m_arg = pack_args xs\<rparr>]"
  by (simp_all add: send_app_def send_ws_def sendw_send_frame)

lemma ensure_app_flags_frame:
  "same_tables w (ensure_app_flags a f w)"
  "ticks (ensure_app_flags a f w) = Suc (ticks w)"
  "waits (ensure_app_flags a f w) = waits w"
  "appended has_arg w (ensure_app_flags a f w)"
  by (simp_all add: ensure_app_flags_def mono_def send_app_def sendw_send_def same_tables_def
      appended_def has_arg_def pack_args_def)




lemma connect_endpoint_frame:
  "same_tables w (snd (connect_endpoint ep w))"
  "appended has_arg w (snd (connect_endpoint ep w))"
  by (simp_all add: connect_endpoint_def Let_def wait_reply_def waiters_arm_def waiters_set_def
      waiters_cleanup_def waiters_pop_def send_ws_def sendw_send_def mark_seen_def mono_def
      same_tables_def appended_def has_arg_def pack_args_def OSC_PASSCODE_def
      split: option.splits json.splits)

lemma ensure_connected_frame:
  "same_tables w (ensure_connected ep f w)"
  "appended has_arg w (ensure_connected ep f w)"
proof -
  let ?w1 = "snd (mono w)"
  let ?w2 = "?w1\<lparr>connect_last := (connect_last ?w1)(ip ep \<mapsto> fst (mono w))\<rparr>"
  let ?c1 = "connect_endpoint ep ?w2"
  let ?w3 = "ensure_app_flags (ip ep) True (snd ?c1)"
  let ?c2 = "connect_endpoint ep ?w3"
  have s1: "same_tables w ?w1" and a1: "appended has_arg w ?w1"
    by (simp_all add: mono_frame same_outq_appended)
  have s2: "same_tables w ?w2" and a2: "appended has_arg w ?w2"
    using s1 a1 by (simp_all add: same_tables_def appended_def)
  have s3: "same_tables w (snd ?c1)"
    using s2 connect_endpoint_frame(1) by (rule same_tables_trans)
  have a3: "appended has_arg w (snd ?c1)"
    using a2 connect_endpoint_frame(2) by (rule appended_trans)
  have s4: "same_tables w ?w3"
    using s3 ensure_app_flags_frame(1) by (rule same_tables_trans)
  have a4: "appended has_arg w ?w3"
    using a3 ensure_app_flags_frame(4) by (rule appended_trans)
  have s5: "same_tables w (snd ?c2)"
    using s4 connect_endpoint_frame(1) by (rule same_tables_trans)
  have a5: "appended has_arg w (snd ?c2)"
    using a4 connect_endpoint_frame(2) by (rule appended_trans)
  have e: "ensure_connected ep f w =
            (if no_workspace_id ep then w
             else if \<not> f \<and> fst (mono w) - get_or (connect_last ?w1) (ip ep) 0 < CONNECT_REFRESH_EVERY
               then ?w1
             else if fst ?c1 then snd ?c1 else snd ?c2)"
    by (simp add: ensure_connected_def split_beta split: bool.splits)
  show "same_tables w (ensure_connected ep f w)"
    unfolding e using s1 s3 s5 by simp
  show "appended has_arg w (ensure_connected ep f w)"
    unfolding e using a1 a3 a5 by simp
qed

lemma thump_prelude_frame:
  "same_tables w (ensure_connected ep False (ensure_app_flags (ip ep) False w))"
  "appended has_arg w (ensure_connected ep False (ensure_app_flags (ip ep) False w))"
  using ensure_app_flags_frame(1) ensure_connected_frame(1) apply (rule same_tables_trans)
  using ensure_app_flags_frame(4) ensure_connected_frame(2) apply (rule appended_trans)
  done

lemma appended_has_arg_last:
  assumes "appended has_arg w w'" "length (outq w) < length (outq w')"
  shows "last (outq w') \<noteq> thump_msg ep"
proof -
  from assms obtain ms where ms: "outq w' = outq w @ ms" "list_all has_arg ms" "ms \<noteq> []"
    by (auto simp: appended_def)
  then have "last (outq w') = last ms" by simp
  moreover from ms have "has_arg (last ms)" by (simp add: list_all_iff)
  ultimately show ?thesis by (auto simp: has_arg_def thump_msg_def)
qed

lemma thump_fire_cases:
  "(thump_sent_at ep w = None \<and> last_thump_sent (thump_fire ep w) = last_thump_sent w)
   \<or> (\<exists>t. thump_sent_at ep w = Some t
          \<and> get_or (last_thump_sent w) (thump_key ep) 0 + HEARTBEAT_INTERVAL \<le> t
          \<and> last_thump_sent (thump_fire ep w) = (last_thump_sent w)(thump_key ep \<mapsto> t))"
proof (cases "no_workspace_id ep")
  case True
  then show ?thesis by (simp add: thump_fire_def thump_sent_at_def)
next
  case False
  let ?p = "ensure_connected ep False (ensure_app_flags (ip ep) False w)"
  let ?now = "clock w (ticks ?p)"
  let ?w1 = "snd (mono ?p)"
  have sp: "same_tables w ?p" and ap: "appended has_arg w ?p"
    by (rule thump_prelude_frame)+
  have clk: "clock ?p = clock w" and lts: "last_thump_sent ?p = last_thump_sent w"
    using sp by (simp_all add: same_tables_def)
  have now: "fst (mono ?p) = ?now" by (simp add: mono_def clk)
  have w1: "last_thump_sent ?w1 = last_thump_sent w" "outq ?w1 = outq ?p" "ticks ?w1 = Suc (ticks ?p)"
    by (simp_all add: mono_def lts)
  show ?thesis
  proof (cases "?now - get_or (last_thump_sent w) (thump_key ep) 0 < HEARTBEAT_INTERVAL")
    case True
    then have r: "thump_fire ep w = ?w1"
      using False by (simp add: thump_fire_def split_beta now w1 thump_key_def Let_def)
    have a1: "appended has_arg w ?w1" using ap by (simp add: appended_def w1)
    have "thump_sent_at ep w = None"
      unfolding thump_sent_at_def r Let_def
      using appended_has_arg_last [OF a1, of ep] by auto
    then show ?thesis by (simp add: r w1)
  next
    case nt: False
    let ?w2 = "send_ws (ip ep) (wsid_of ep) ''thump'' []
                 (?w1\<lparr>last_thump_sent := (last_thump_sent ?w1)(thump_key ep \<mapsto> ?now)\<rparr>)"
    have r: "thump_fire ep w = ?w2"
      using False nt by (simp add: thump_fire_def split_beta now w1 thump_key_def Let_def)
    have o: "outq ?w2 = outq ?p @ [thump_msg ep]"
      by (simp add: send_frame w1 thump_msg_def pack_args_def)
    have t: "ticks ?w2 = Suc (ticks ?p)" by (simp add: send_frame w1)
    have l: "last_thump_sent ?w2 = (last_thump_sent w)(thump_key ep \<mapsto> ?now)"
      by (simp add: send_ws_def sendw_send_def w1)
    have len: "length (outq w) < length (outq ?w2)"
      using appended_length [OF ap] by (simp add: o)
    have "thump_sent_at ep w = Some ?now"
      unfolding thump_sent_at_def r Let_def using len by (simp add: o t)
    moreover have "get_or (last_thump_sent w) (thump_key ep) 0 + HEARTBEAT_INTERVAL \<le> ?now"
      using nt by simp
    ultimately show ?thesis using l r by simp
  qed
qed

lemma thump_fire_last_mono:
  "get_or (last_thump_sent w) k 0 \<le> get_or (last_thump_sent (thump_fire ep w)) k 0"
  using thump_fire_cases [of ep w]
  by (auto simp: get_or_def HEARTBEAT_INTERVAL_def)

lemma fold_thump_fire_last_mono:
  "get_or (last_thump_sent w) k 0 \<le> get_or (last_thump_sent (fold thump_fire eps w)) k 0"
proof (induction eps arbitrary: w)
  case Nil
  then show ?case by simp
next
  case (Cons ep eps)
  have "get_or (last_thump_sent w) k 0 \<le> get_or (last_thump_sent (thump_fire ep w)) k 0"
    by (rule thump_fire_last_mono)
  also have "\<dots> \<le> get_or (last_thump_sent (fold thump_fire eps (thump_fire ep w))) k 0"
    by (rule Cons.IH)
  finally show ?case by simp
qed

text \<open>
  Claim thump_fire_spacing. In any sequence of calls of \<open>thump_fire\<close>, two calls for the same
  address and workspace identifier that both hand a \<^verbatim>\<open>/thump\<close> to the send
  worker do so at clock readings at least 2 seconds apart: no 2-second
  window holds more than one such message for the pair.
\<close>

theorem thump_fire_spacing:
  assumes "ip ep2 = ip ep1" and "workspace_id ep2 = workspace_id ep1"
    and "thump_sent_at ep1 w = Some t1"
    and "thump_sent_at ep2 (fold thump_fire eps (thump_fire ep1 w)) = Some t2"
  shows "t1 + 2 \<le> t2"
proof -
  let ?k = "thump_key ep1"
  let ?w2 = "fold thump_fire eps (thump_fire ep1 w)"
  have k: "thump_key ep2 = ?k" using assms(1,2) by (simp add: thump_key_def wsid_of_def)
  from thump_fire_cases [of ep1 w] assms(3)
  have "last_thump_sent (thump_fire ep1 w) = (last_thump_sent w)(?k \<mapsto> t1)" by auto
  then have "get_or (last_thump_sent (thump_fire ep1 w)) ?k 0 = t1" by (simp add: get_or_def)
  with fold_thump_fire_last_mono [of "thump_fire ep1 w" ?k eps]
  have "t1 \<le> get_or (last_thump_sent ?w2) ?k 0" by simp
  moreover from thump_fire_cases [of ep2 ?w2] assms(4)
  have "get_or (last_thump_sent ?w2) ?k 0 + HEARTBEAT_INTERVAL \<le> t2" by (auto simp: k)
  ultimately show ?thesis by (simp add: HEARTBEAT_INTERVAL_def)
qed

lemmas world_eval =
  thump_fire_def thump_sent_at_def thump_msg_def ensure_app_flags_def ensure_connected_def
  connect_endpoint_def mono_def mark_seen_def send_app_def send_ws_def sendw_send_def
  pack_args_def ws_path_def py_replace_def waiters_arm_def waiters_set_def waiters_pop_def
  waiters_cleanup_def wait_reply_def no_workspace_id_def wsid_of_def get_or_def world_init_def
  APPFLAGS_REFRESH_EVERY_def CONNECT_REFRESH_EVERY_def HEARTBEAT_INTERVAL_def OSC_PASSCODE_def
  PI_REPLY_PORT_def P_UDP_REPLY_PORT_def P_ALWAYS_REPLY_def P_FORGET_ME_NOT_def Let_def

theorem thump_fire_spacing_witness:
  "thump_sent_at
     \<lparr>ip = ''10.0.0.1'', role = ''main'', workspace_name = Some ''show'',
      workspace_id = Some ''W'', last_seen_mono = 0\<rparr>
     (world_init (\<lambda>n. 10 + of_nat n) (\<lambda>n. None)) = Some 13
   \<and> thump_sent_at
     \<lparr>ip = ''10.0.0.1'', role = ''main'', workspace_name = Some ''show'',
      workspace_id = Some ''W'', last_seen_mono = 0\<rparr>
     (fold thump_fire []
        (thump_fire
           \<lparr>ip = ''10.0.0.1'', role = ''main'', workspace_name = Some ''show'',
            workspace_id = Some ''W'', last_seen_mono = 0\<rparr>
           (world_init (\<lambda>n. 10 + of_nat n) (\<lambda>n. None)))) = Some 16"
proof -
  let ?ep = "\<lparr>ip = ''10.0.0.1'', role = ''main'', workspace_name = Some ''show'',
      workspace_id = Some ''W'', last_seen_mono = 0\<rparr>"
  let ?w = "world_init (\<lambda>n. 10 + of_nat n) (\<lambda>n. None)"
  have a: "thump_sent_at ?ep ?w = Some 13"
    by (simp add: world_eval)
  have b: "thump_sent_at ?ep (fold thump_fire [] (thump_fire ?ep ?w)) = Some 16"
    by (simp add: world_eval)
  from thump_fire_spacing [OF refl refl a b] a b show ?thesis by simp
qed

section \<open>Properties of the reconcile\<close>

lemma map_of_Nil_list: "wsmap = [] \<Longrightarrow> map_of wsmap k = None"
  by simp









lemma refresh_role_map_frame:
  "same_tables w (refresh_role_map_from_state st w)"
  "outq (refresh_role_map_from_state st w) = outq w"
  by (simp_all add: refresh_role_map_from_state_def same_tables_def)



















lemma found_id_name:
  "found_id ep reply = Some i \<Longrightarrow> \<exists>desired. workspace_name ep = Some desired \<and> desired \<noteq> []"
  by (auto simp: found_id_def split: option.splits json.splits if_splits)




end
